theory Spec2Isabelle
  imports Complex_Main "HOL-Library.Word" "HOL-Library.Sublist"
begin

section \<open>The host USB stack, as temper calls it\<close>

text \<open>
  temper talks to one thermometer through libusb. Every libusb entry point the program
  calls is a constructor of \<open>call\<close>; the program's observable behaviour is the list of
  events it produces, in order: the libusb calls, what it writes to \<open>std::cerr\<close> and
  \<open>std::cout\<close>, and writes that leave the object they were aimed at.
\<close>

type_synonym u8 = "8 word"
type_synonym u16 = "16 word"

datatype call =
    Libusb_init
  | Libusb_exit
  | Get_device_list
  | Free_device_list
  | Get_device_descriptor nat
  | Libusb_open nat
  | Libusb_close
  | Kernel_driver_active int
  | Detach_kernel_driver int
  | Attach_kernel_driver int
  | Claim_interface int
  | Release_interface int
  | Set_configuration int
  | Control_out "u8 list"
  | Control_in

text \<open>
  The two exception types of the source: \<open>usb_error\<close> carries the negative libusb code,
  \<open>std::runtime_error\<close> carries one of four messages (two of them end in the byte count).
\<close>

datatype what =
    Wrong_number_of_bytes_written int
  | Wrong_number_of_bytes_read int
  | Could_not_find_device
  | Unknwon_device_type

datatype exn = Usb_error int | Runtime_error what

text \<open>
  A computation ends normally, by an exception in flight, or by \<open>std::terminate\<close>
  (the process is gone: no destructor and no handler runs after it).
\<close>

datatype abrupt = Throw exn | Terminate

datatype event =
    Call call
  | Cerr_guard exn
  | Cerr_main exn
  | Cout real
  | Write_past_end "u8 list"

text \<open>
  The host is everything the program does not decide: the value each libusb call returns
  (it may depend on all that happened before), the bytes the device delivers on an inbound
  transfer, the content of storage the program reads before writing it, the enumeration
  snapshot (one \<open>(idVendor, idProduct)\<close> per device, in enumeration order), the byte order
  of the machine and the rounding of its floating-point unit.
\<close>

record host =
  ret :: "event list \<Rightarrow> call \<Rightarrow> int"
  inbound :: "event list \<Rightarrow> u8 list"
  indeterminate :: "event list \<Rightarrow> u8 list"
  devlist :: "(u16 \<times> u16) list"
  big_endian :: bool
  fl :: "real \<Rightarrow> real"

type_synonym 'a prog = "event list \<Rightarrow> (abrupt + 'a) \<times> event list"

definition return_prog :: "'a \<Rightarrow> 'a prog" where
  "return_prog x tr = (Inr x, tr)"

definition throw :: "exn \<Rightarrow> 'a prog" where
  "throw e tr = (Inl (Throw e), tr)"

definition bind_prog :: "'a prog \<Rightarrow> ('a \<Rightarrow> 'b prog) \<Rightarrow> 'b prog" where
  "bind_prog m f tr = (case m tr of (Inl a, tr') \<Rightarrow> (Inl a, tr') | (Inr x, tr') \<Rightarrow> f x tr')"

definition libusb :: "host \<Rightarrow> call \<Rightarrow> int prog" where
  "libusb h c tr = (Inr (ret h tr c), tr @ [Call c])"

text \<open>\<open>usb_error::check\<close>: a negative code is thrown, anything else is handed back.\<close>

definition check :: "int \<Rightarrow> int prog" where
  "check e = (if e < 0 then throw (Usb_error e) else return_prog e)"

section \<open>Transport\<close>

text \<open>
  \<open>msg32\<close> and \<open>msg256\<close> are \<open>std::array<unsigned char, N>\<close>. Aggregate initialisation
  \<open>{{v1, ..., vk}}\<close> sets the first \<open>k\<close> elements and zeroes the rest.
\<close>

definition msg32_init :: "u8 list \<Rightarrow> u8 list" where
  "msg32_init vs = take 32 (vs @ replicate 32 0)"

definition usb_send :: "host \<Rightarrow> u8 list \<Rightarrow> unit prog" where
  "usb_send h data =
     bind_prog (libusb h (Control_out data)) (\<lambda>r.
     bind_prog (check r) (\<lambda>_.
     if r \<noteq> 32 then throw (Runtime_error (Wrong_number_of_bytes_written r))
     else return_prog ()))"

text \<open>
  An inbound control transfer into a buffer: the first \<open>r\<close> bytes of the buffer are what
  the device delivered, the rest keeps what the buffer held.
\<close>

definition overwrite :: "u8 list \<Rightarrow> u8 list \<Rightarrow> u8 list" where
  "overwrite buf bs = take (length buf) bs @ drop (length bs) buf"

definition uninitialised :: "host \<Rightarrow> nat \<Rightarrow> event list \<Rightarrow> u8 list" where
  "uninitialised h n tr = take n (indeterminate h tr @ replicate n 0)"

definition libusb_control_transfer_in :: "host \<Rightarrow> u8 list \<Rightarrow> (int \<times> u8 list) prog" where
  "libusb_control_transfer_in h buf tr =
     (let r = ret h tr Control_in
      in (Inr (r, overwrite buf (take (nat r) (inbound h tr))), tr @ [Call Control_in]))"

definition usb_recv :: "host \<Rightarrow> (u8 list) prog" where
  "usb_recv h tr =
     (let result = uninitialised h 256 tr
      in bind_prog (libusb_control_transfer_in h result) (\<lambda>(r, result).
         bind_prog (check r) (\<lambda>_.
         if r < 256 then throw (Runtime_error (Wrong_number_of_bytes_read r))
         else return_prog result)) tr)"

text \<open>
  The oldest variant of the source (its \<open>send_data\<close> and \<open>recv_data\<close>): a message is
  a \<open>std::tr1::array<unsigned int, 8>\<close>, copied into the 32-byte buffer (each element
  narrowed to a byte) and followed by zeros up to the end of the buffer; a read is
  accepted from two bytes on.
\<close>

definition send_data :: "host \<Rightarrow> 32 word list \<Rightarrow> unit prog" where
  "send_data h data =
     (let buf = map ucast data @ replicate (32 - length data) (0 :: u8)
      in bind_prog (libusb h (Control_out buf)) (\<lambda>r.
         bind_prog (check r) (\<lambda>_.
         if r \<noteq> 32 then throw (Runtime_error (Wrong_number_of_bytes_written r))
         else return_prog ())))"

definition recv_data :: "host \<Rightarrow> (u8 list) prog" where
  "recv_data h tr =
     (let result = uninitialised h 256 tr
      in bind_prog (libusb_control_transfer_in h result) (\<lambda>(r, result).
         bind_prog (check r) (\<lambda>_.
         if r < 2 then throw (Runtime_error (Wrong_number_of_bytes_read r))
         else return_prog result)) tr)"

section \<open>Command protocol\<close>

text \<open>
  The padding loop \<open>for (int i = 0; i < 7; ++i) usb_send (dh, b)\<close> is \<open>send_times 7\<close>:
  the sends one after the other, stopped by the first that throws.
\<close>

primrec send_times :: "nat \<Rightarrow> host \<Rightarrow> u8 list \<Rightarrow> unit prog" where
  "send_times 0 h b = return_prog ()"
| "send_times (Suc n) h b = bind_prog (usb_send h b) (\<lambda>_. send_times n h b)"

definition send_cmd :: "host \<Rightarrow> u8 \<Rightarrow> unit prog" where
  "send_cmd h cmd =
     bind_prog (usb_send h (msg32_init [0x0a, 0x0b, 0x0c, 0x0d, 0x00, 0x00, 0x02, 0x00])) (\<lambda>_.
     bind_prog (usb_send h ((msg32_init [0])[0 := cmd])) (\<lambda>_.
     send_times 7 h (msg32_init [0])))"

definition read_data :: "host \<Rightarrow> u8 \<Rightarrow> (u8 list) prog" where
  "read_data h cmd =
     bind_prog (send_cmd h cmd) (\<lambda>_.
     bind_prog (usb_send h (msg32_init [10, 11, 12, 13, 0, 0, 1, 0])) (\<lambda>_.
     usb_recv h))"

section \<open>Opcodes and device types\<close>

definition cmd_getdata_ntc :: u8 where "cmd_getdata_ntc = 0x41"
definition cmd_reset0 :: u8 where "cmd_reset0 = 0x43"
definition cmd_reset1 :: u8 where "cmd_reset1 = 0x44"
definition cmd_getdata :: u8 where "cmd_getdata = 0x48"
definition cmd_devtype :: u8 where "cmd_devtype = 0x52"
definition cmd_getdata_outer :: u8 where "cmd_getdata_outer = 0x53"
definition cmd_getdata_inner :: u8 where "cmd_getdata_inner = 0x54"

definition dev_type_temperhum :: u16 where "dev_type_temperhum = 0x5a53"
definition dev_type_temperhum2 :: u16 where "dev_type_temperhum2 = 0x5a57"
definition dev_type_temper1 :: u16 where "dev_type_temper1 = 0x5857"
definition dev_type_temper2 :: u16 where "dev_type_temper2 = 0x5957"
definition dev_type_temperntc :: u16 where "dev_type_temperntc = 0x5b57"

section \<open>Scopes, destructors and the interface guards\<close>

text \<open>
  A libusb function returning \<open>void\<close> (\<open>libusb_exit\<close>, \<open>libusb_close\<close>,
  \<open>libusb_free_device_list\<close>): it is called, and nothing comes back.
\<close>

definition libusb_void :: "call \<Rightarrow> unit prog" where
  "libusb_void c tr = (Inr (), tr @ [Call c])"

text \<open>
  Both guards write their destructor as a function-try-block,
  \<^verbatim>\<open>~T () try { ... } catch (const usb_error& e) { std::cerr << ...; }\<close>.
  The handler catches \<open>usb_error\<close> only and writes the diagnostic. It has no \<open>return\<close>
  statement, and when control reaches the end of a handler of the function-try-block of a
  destructor, the exception being handled is thrown again (C++ [except.handle]). So the
  destructor's body still ends with the exception in flight, after the diagnostic.
\<close>

definition function_try_dtor :: "unit prog \<Rightarrow> unit prog" where
  "function_try_dtor body tr =
     (case body tr of
        (Inl (Throw (Usb_error e)), tr') \<Rightarrow> (Inl (Throw (Usb_error e)), tr' @ [Cerr_guard (Usb_error e)])
      | out \<Rightarrow> out)"

text \<open>
  Running the destructor of a local object when its scope is left with outcome \<open>out\<close>
  (a normal exit or an exception in flight). \<open>noexcept_dtor\<close> is the language dialect: from
  C++11 on a destructor without an exception specification is \<open>noexcept\<close>, and an
  exception leaving it calls \<open>std::terminate\<close>; before C++11 it leaves the destructor, and
  calls \<open>std::terminate\<close> only if another exception is already unwinding the stack.
\<close>

definition destroy :: "bool \<Rightarrow> unit prog \<Rightarrow> (abrupt + 'a) \<times> event list \<Rightarrow> (abrupt + 'a) \<times> event list" where
  "destroy noexcept_dtor dtor out =
     (case out of
        (Inl Terminate, tr) \<Rightarrow> (Inl Terminate, tr)
      | (res, tr) \<Rightarrow>
          (case dtor tr of
             (Inr _, tr') \<Rightarrow> (res, tr')
           | (Inl Terminate, tr') \<Rightarrow> (Inl Terminate, tr')
           | (Inl (Throw e), tr') \<Rightarrow>
               if noexcept_dtor \<or> isl res then (Inl Terminate, tr') else (Inl (Throw e), tr')))"

text \<open>
  A local object: its constructor runs; if that throws, the object never existed. Otherwise
  the rest of the scope runs, and the destructor runs when the scope is left.
\<close>

definition scoped :: "bool \<Rightarrow> 'r prog \<Rightarrow> ('r \<Rightarrow> unit prog) \<Rightarrow> ('r \<Rightarrow> 'a prog) \<Rightarrow> 'a prog" where
  "scoped noexcept_dtor ctor dtor body =
     bind_prog ctor (\<lambda>x tr. destroy noexcept_dtor (dtor x) (body x tr))"

text \<open>
  The program opens one device, so the handle member \<open>h\<close> of the guards is not
  represented: every call of a guard goes to that device.
\<close>

record usb_attach_interface =
  interface :: int
  was_attached :: bool

definition usb_attach_interface_ctor :: "host \<Rightarrow> int \<Rightarrow> usb_attach_interface prog" where
  "usb_attach_interface_ctor h i =
     bind_prog (libusb h (Kernel_driver_active i)) (\<lambda>r.
     bind_prog (check r) (\<lambda>r.
     let this = \<lparr>interface = i, was_attached = (r \<noteq> 0)\<rparr>
     in if was_attached this then
          bind_prog (libusb h (Detach_kernel_driver i)) (\<lambda>r.
          bind_prog (check r) (\<lambda>_. return_prog this))
        else return_prog this))"

definition usb_attach_interface_dtor :: "host \<Rightarrow> usb_attach_interface \<Rightarrow> unit prog" where
  "usb_attach_interface_dtor h this =
     function_try_dtor
       (if was_attached this then
          bind_prog (libusb h (Attach_kernel_driver (interface this))) (\<lambda>r.
          bind_prog (check r) (\<lambda>_. return_prog ()))
        else return_prog ())"

record usb_claim_interface =
  claimed_interface :: int

definition usb_claim_interface_ctor :: "host \<Rightarrow> int \<Rightarrow> usb_claim_interface prog" where
  "usb_claim_interface_ctor h i =
     bind_prog (libusb h (Claim_interface i)) (\<lambda>r.
     bind_prog (check r) (\<lambda>_. return_prog \<lparr>claimed_interface = i\<rparr>))"

definition usb_claim_interface_dtor :: "host \<Rightarrow> usb_claim_interface \<Rightarrow> unit prog" where
  "usb_claim_interface_dtor h this =
     function_try_dtor
       (bind_prog (libusb h (Release_interface (claimed_interface this))) (\<lambda>r.
        bind_prog (check r) (\<lambda>_. return_prog ())))"

section \<open>Device locator\<close>

text \<open>
  \<open>usb_device_list\<close> takes the enumeration snapshot; its smart pointer frees the list
  when \<open>usb_device_get\<close> is left, however it is left. The source does not test the count
  \<open>libusb_get_device_list\<close> returns, so its error return is outside this model: the
  snapshot is the list \<open>devlist\<close>. A device handle is the device's position in the
  snapshot.
\<close>

definition usb_device_list :: "host \<Rightarrow> ((u16 \<times> u16) list) prog" where
  "usb_device_list h tr = (Inr (devlist h), tr @ [Call Get_device_list])"

fun scan_devices :: "host \<Rightarrow> u16 \<Rightarrow> u16 \<Rightarrow> nat \<Rightarrow> (u16 \<times> u16) list \<Rightarrow> nat prog" where
  "scan_devices h vendor product dev [] = throw (Runtime_error Could_not_find_device)"
| "scan_devices h vendor product dev (d # ds) =
     bind_prog (libusb h (Get_device_descriptor dev)) (\<lambda>r.
     bind_prog (check r) (\<lambda>_.
     if fst d = vendor \<and> snd d = product then
       bind_prog (libusb h (Libusb_open dev)) (\<lambda>r.
       bind_prog (check r) (\<lambda>_. return_prog dev))
     else scan_devices h vendor product (Suc dev) ds))"

definition usb_device_get :: "host \<Rightarrow> u16 \<Rightarrow> u16 \<Rightarrow> nat prog" where
  "usb_device_get h vendor product =
     scoped True (usb_device_list h) (\<lambda>_. libusb_void Free_device_list)
       (scan_devices h vendor product 0)"

definition usb_open :: "host \<Rightarrow> unit prog" where
  "usb_open h =
     bind_prog (libusb h Libusb_init) (\<lambda>r.
     bind_prog (check r) (\<lambda>_. return_prog ()))"

section \<open>Decoder\<close>

text \<open>
  \<open>float (d[0]) + float (d[1])/256\<close> (\<open>double\<close> in the oldest variant): every conversion
  and every operation yields the exact result rounded to the format, \<open>rnd\<close>.
\<close>

definition decode :: "(real \<Rightarrow> real) \<Rightarrow> u8 list \<Rightarrow> real" where
  "decode rnd d = rnd (rnd (real (unat (d ! 0))) + rnd (rnd (real (unat (d ! 1))) / rnd 256))"

section \<open>Session\<close>

text \<open>
  \<open>struct dev_info\<close>: a \<open>uint16_t\<close>, four calibration bytes, a footer byte and one byte
  of padding, eight bytes in all. The program fills it by copying bytes of the raw report
  over its storage, so \<open>dev_type\<close> is the first two bytes in the machine's byte order.
\<close>

record dev_info =
  dev_type :: u16
  cal :: "u8 list"
  footer :: u8

definition sizeof_dev_info :: nat where
  "sizeof_dev_info = 8"

definition dev_info_of_bytes :: "bool \<Rightarrow> u8 list \<Rightarrow> dev_info" where
  "dev_info_of_bytes be bs =
     \<lparr>dev_type = (if be then word_cat (bs ! 0) (bs ! 1) else word_cat (bs ! 1) (bs ! 0)),
      cal = take 4 (drop 2 bs),
      footer = bs ! 6\<rparr>"

text \<open>
  \<open>std::copy (first, last, out)\<close> onto the storage of an object: the bytes that fit
  replace the object's, the others are written behind it. The second component is what
  was written past the end of the object.
\<close>

definition std_copy :: "u8 list \<Rightarrow> u8 list \<Rightarrow> u8 list \<times> u8 list" where
  "std_copy src obj = (take (length obj) src @ drop (length src) obj, drop (length obj) src)"

text \<open>
  The init block. \<open>ncopy\<close> is the number of bytes of the report the program copies over
  \<open>dinfo\<close>: all 256 in \<open>temper.cpp\<close> (\<open>std::begin (dinfo_raw)\<close> to \<open>std::end (dinfo_raw)\<close>),
  \<open>sizeof (dev_info)\<close> in the tr1 variant. A write past the end of \<open>dinfo\<close> is recorded
  as an event; what it destroys on the stack is not modelled, and the model goes on as
  the source text reads. Such a write is undefined behaviour: it lands on the other locals
  of \<open>main\<close>, the guards and the handle among them. So a trace says what the program
  does up to a \<open>Write_past_end\<close> event, and from that event on only what the source
  text reads. The tr1 variant never produces the event; a run of \<open>temper.cpp\<close> produces
  it as soon as the device-info report has been read.
\<close>

definition init :: "nat \<Rightarrow> host \<Rightarrow> unit prog" where
  "init ncopy h =
     bind_prog (read_data h cmd_devtype) (\<lambda>dinfo_raw tr.
       let (dinfo_bytes, past_end) = std_copy (take ncopy dinfo_raw) (uninitialised h sizeof_dev_info tr);
           dinfo = dev_info_of_bytes (big_endian h) dinfo_bytes;
           tr = (if past_end = [] then tr else tr @ [Write_past_end past_end])
       in (if dev_type dinfo = dev_type_temper1 then send_cmd h cmd_reset0
           else throw (Runtime_error Unknwon_device_type)) tr)"

definition read_temperature :: "host \<Rightarrow> unit prog" where
  "read_temperature h =
     bind_prog (read_data h cmd_getdata_inner) (\<lambda>d tr.
       (Inr (), tr @ [Cout (decode (fl h) d)]))"

definition main_try :: "bool \<Rightarrow> nat \<Rightarrow> host \<Rightarrow> unit prog" where
  "main_try nx ncopy h =
     scoped nx (usb_open h) (\<lambda>_. libusb_void Libusb_exit) (\<lambda>usb.
     scoped nx (usb_device_get h 0x1130 0x660c) (\<lambda>_. libusb_void Libusb_close) (\<lambda>dh.
     scoped nx (usb_attach_interface_ctor h 0) (usb_attach_interface_dtor h) (\<lambda>a1.
     scoped nx (usb_attach_interface_ctor h 1) (usb_attach_interface_dtor h) (\<lambda>a2.
     bind_prog (libusb h (Set_configuration 1)) (\<lambda>r.
     bind_prog (check r) (\<lambda>_.
     scoped nx (usb_claim_interface_ctor h 0) (usb_claim_interface_dtor h) (\<lambda>i1.
     scoped nx (usb_claim_interface_ctor h 1) (usb_claim_interface_dtor h) (\<lambda>i2.
     bind_prog (init ncopy h) (\<lambda>_.
     read_temperature h)))))))))"

text \<open>
  \<open>main\<close> is a function-try-block too: when an exception leaves the body, the locals
  are destroyed first, then the handler reports it and returns \<open>EXIT_FAILURE\<close>. After
  \<open>std::terminate\<close> there is no handler and no exit status of the program's: the process
  is aborted.
\<close>

datatype exit_status = EXIT_SUCCESS | EXIT_FAILURE | Aborted

definition main :: "bool \<Rightarrow> nat \<Rightarrow> host \<Rightarrow> exit_status \<times> event list" where
  "main nx ncopy h =
     (case main_try nx ncopy h [] of
        (Inr _, tr) \<Rightarrow> (EXIT_SUCCESS, tr)
      | (Inl (Throw e), tr) \<Rightarrow> (EXIT_FAILURE, tr @ [Cerr_main e])
      | (Inl Terminate, tr) \<Rightarrow> (Aborted, tr))"

text \<open>
  \<open>temper.cpp\<close> needs C++11 (\<open>auto\<close>, \<open>noexcept\<close>, \<open>std::unique_ptr\<close>), so its destructors
  are \<open>noexcept\<close>, and it copies the whole report. The tr1 variant copies
  \<open>sizeof (dev_info)\<close> bytes; its dialect is a parameter.
\<close>

definition temper_main :: "host \<Rightarrow> exit_status \<times> event list" where
  "temper_main = main True 256"

definition tr1_main :: "bool \<Rightarrow> host \<Rightarrow> exit_status \<times> event list" where
  "tr1_main nx = main nx sizeof_dev_info"

section \<open>The session of the oldest variant\<close>

text \<open>
  In the oldest variant one guard per interface does everything: its constructor asks
  whether the kernel driver is active, detaches it if so and claims the interface; its
  destructor, a function-try-block like the others, releases the interface and then
  reattaches the driver. The messages are arrays of eight \<open>unsigned int\<close>.
\<close>

record claim_interface =
  try_attach :: bool
  interface_number :: int

definition claim_interface_ctor :: "host \<Rightarrow> int \<Rightarrow> claim_interface prog" where
  "claim_interface_ctor h i =
     bind_prog (libusb h (Kernel_driver_active i)) (\<lambda>r.
     bind_prog (check r) (\<lambda>_.
     let this = \<lparr>try_attach = (r \<noteq> 0), interface_number = i\<rparr>
     in bind_prog
          (if try_attach this then
             bind_prog (libusb h (Detach_kernel_driver i)) (\<lambda>r.
             bind_prog (check r) (\<lambda>_. return_prog ()))
           else return_prog ()) (\<lambda>_.
        bind_prog (libusb h (Claim_interface i)) (\<lambda>r.
        bind_prog (check r) (\<lambda>_. return_prog this)))))"

definition claim_interface_dtor :: "host \<Rightarrow> claim_interface \<Rightarrow> unit prog" where
  "claim_interface_dtor h this =
     function_try_dtor
       (bind_prog (libusb h (Release_interface (interface_number this))) (\<lambda>r.
        bind_prog (check r) (\<lambda>_.
        if try_attach this then
          bind_prog (libusb h (Attach_kernel_driver (interface_number this))) (\<lambda>r.
          bind_prog (check r) (\<lambda>_. return_prog ()))
        else return_prog ())))"

definition select_device_msg :: "32 word list" where
  "select_device_msg = [10, 11, 12, 13, 0, 0, 2, 0]"

definition increase_precision :: "32 word list" where
  "increase_precision = [0x43, 0, 0, 0, 0, 0, 0, 0]"

definition padding_msg :: "32 word list" where
  "padding_msg = [0, 0, 0, 0, 0, 0, 0, 0]"

definition get_temperature :: "32 word list" where
  "get_temperature = [0x54, 0, 0, 0, 0, 0, 0, 0]"

definition close_device :: "32 word list" where
  "close_device = [10, 11, 12, 13, 0, 0, 1, 0]"

primrec send_data_times :: "nat \<Rightarrow> host \<Rightarrow> 32 word list \<Rightarrow> unit prog" where
  "send_data_times 0 h b = return_prog ()"
| "send_data_times (Suc n) h b = bind_prog (send_data h b) (\<lambda>_. send_data_times n h b)"

definition oldest_main_try :: "bool \<Rightarrow> host \<Rightarrow> unit prog" where
  "oldest_main_try nx h =
     scoped nx (usb_open h) (\<lambda>_. libusb_void Libusb_exit) (\<lambda>usb.
     scoped nx (usb_device_get h 0x1130 0x660c) (\<lambda>_. libusb_void Libusb_close) (\<lambda>dh.
     bind_prog (libusb h (Set_configuration 1)) (\<lambda>r.
     bind_prog (check r) (\<lambda>_.
     scoped nx (claim_interface_ctor h 0) (claim_interface_dtor h) (\<lambda>i1.
     scoped nx (claim_interface_ctor h 1) (claim_interface_dtor h) (\<lambda>i2.
     bind_prog (send_data h select_device_msg) (\<lambda>_.
     bind_prog (send_data h increase_precision) (\<lambda>_.
     bind_prog (send_data_times 7 h padding_msg) (\<lambda>_.
     bind_prog (send_data h get_temperature) (\<lambda>_.
     bind_prog (send_data_times 7 h padding_msg) (\<lambda>_.
     bind_prog (send_data h close_device) (\<lambda>_.
     bind_prog (recv_data h) (\<lambda>d tr.
       (Inr (), tr @ [Cout (decode (fl h) d)]))))))))))))))"

definition oldest_main :: "bool \<Rightarrow> host \<Rightarrow> exit_status \<times> event list" where
  "oldest_main nx h =
     (case oldest_main_try nx h [] of
        (Inr _, tr) \<Rightarrow> (EXIT_SUCCESS, tr)
      | (Inl (Throw e), tr) \<Rightarrow> (EXIT_FAILURE, tr @ [Cerr_main e])
      | (Inl Terminate, tr) \<Rightarrow> (Aborted, tr))"

section \<open>Specification vocabulary\<close>

text \<open>The events a computation adds to the trace it starts from.\<close>

definition emitted :: "'a prog \<Rightarrow> event list \<Rightarrow> event list" where
  "emitted p tr = drop (length tr) (snd (p tr))"

text \<open>
  \<open>scripted p s\<close>: whatever the host answers, \<open>p\<close> only appends to the trace, what it
  appends is an initial part of \<open>s\<close>, and it is all of \<open>s\<close> when \<open>p\<close> ends normally.
\<close>

definition scripted :: "'a prog \<Rightarrow> event list \<Rightarrow> bool" where
  "scripted p s \<longleftrightarrow>
     (\<forall>tr. snd (p tr) = tr @ emitted p tr \<and> prefix (emitted p tr) s \<and>
           (isl (fst (p tr)) \<or> emitted p tr = s))"

text \<open>The four messages of the protocol, byte by byte, as the specification lists them.\<close>

definition select_device :: "u8 list" where
  "select_device = [10, 11, 12, 13, 0, 0, 2, 0] @ replicate 24 0"

definition command :: "u8 \<Rightarrow> u8 list" where
  "command op = op # replicate 31 0"

definition padding :: "u8 list" where
  "padding = replicate 32 0"

definition request_read :: "u8 list" where
  "request_read = [10, 11, 12, 13, 0, 0, 1, 0] @ replicate 24 0"

definition send_cmd_script :: "u8 \<Rightarrow> event list" where
  "send_cmd_script op =
     map (\<lambda>m. Call (Control_out m)) (select_device # command op # replicate 7 padding)"

definition read_data_script :: "u8 \<Rightarrow> event list" where
  "read_data_script op =
     send_cmd_script op @ [Call (Control_out request_read), Call Control_in]"

text \<open>\<open>emits_only P p\<close>: \<open>p\<close> only appends to the trace, and only events satisfying \<open>P\<close>.\<close>

definition emits_only :: "(event \<Rightarrow> bool) \<Rightarrow> 'a prog \<Rightarrow> bool" where
  "emits_only P p \<longleftrightarrow> (\<forall>tr. \<exists>ev. snd (p tr) = tr @ ev \<and> list_all P ev)"

text \<open>
  An outbound transfer is well formed when its buffer has 32 bytes and is a framing
  message (one of the two eight-byte prefixes, then zeros), a command message (one byte,
  then zeros) or padding (zeros only). Every other event is of no concern here.
\<close>

definition outbound_ok :: "event \<Rightarrow> bool" where
  "outbound_ok e =
     (case e of
        Call (Control_out m) \<Rightarrow>
          length m = 32 \<and>
          ((take 8 m = [10, 11, 12, 13, 0, 0, 2, 0] \<or> take 8 m = [10, 11, 12, 13, 0, 0, 1, 0])
              \<and> drop 8 m = replicate 24 0
           \<or> drop 1 m = replicate 31 0
           \<or> m = replicate 32 0)
      | _ \<Rightarrow> True)"

text \<open>The locator's test on a descriptor, and the position of the first descriptor passing it.\<close>

definition matches :: "u16 \<Rightarrow> u16 \<Rightarrow> u16 \<times> u16 \<Rightarrow> bool" where
  "matches vendor product d \<longleftrightarrow> fst d = vendor \<and> snd d = product"

definition first_match :: "u16 \<Rightarrow> u16 \<Rightarrow> (u16 \<times> u16) list \<Rightarrow> nat" where
  "first_match vendor product ds = length (takeWhile (\<lambda>d. \<not> matches vendor product d) ds)"

text \<open>The calls an interface guard makes, in its constructor or its destructor.\<close>

definition guard_call :: "event \<Rightarrow> bool" where
  "guard_call e =
     (case e of
        Call (Kernel_driver_active _) \<Rightarrow> True
      | Call (Detach_kernel_driver _) \<Rightarrow> True
      | Call (Attach_kernel_driver _) \<Rightarrow> True
      | Call (Claim_interface _) \<Rightarrow> True
      | Call (Release_interface _) \<Rightarrow> True
      | _ \<Rightarrow> False)"

text \<open>A host on which reading a descriptor and opening a device never fail.\<close>

definition host_lists_devices :: "host \<Rightarrow> bool" where
  "host_lists_devices h \<longleftrightarrow>
     (\<forall>tr n. 0 \<le> ret h tr (Get_device_descriptor n) \<and> 0 \<le> ret h tr (Libusb_open n))"

text \<open>The devices opened in a trace, in order.\<close>

definition opened :: "event list \<Rightarrow> nat list" where
  "opened tr = concat (map (\<lambda>e. case e of Call (Libusb_open n) \<Rightarrow> [n] | _ \<Rightarrow> []) tr)"

text \<open>
  The three phases of \<open>main\<close>, for stating what it does: the declarations up to
  \<open>i2\<close> in order (\<open>acquire\<close>, which hands back the two attach guards), the init and
  read blocks (\<open>protocol\<close>), and the destructors of the six locals in reverse order of
  declaration, applied to the outcome of the protocol (\<open>teardown\<close>).
\<close>

definition acquire :: "host \<Rightarrow> (usb_attach_interface \<times> usb_attach_interface) prog" where
  "acquire h =
     bind_prog (usb_open h) (\<lambda>usb.
     bind_prog (usb_device_get h 0x1130 0x660c) (\<lambda>dh.
     bind_prog (usb_attach_interface_ctor h 0) (\<lambda>a1.
     bind_prog (usb_attach_interface_ctor h 1) (\<lambda>a2.
     bind_prog (libusb h (Set_configuration 1)) (\<lambda>r.
     bind_prog (check r) (\<lambda>_.
     bind_prog (usb_claim_interface_ctor h 0) (\<lambda>i1.
     bind_prog (usb_claim_interface_ctor h 1) (\<lambda>i2.
     return_prog (a1, a2)))))))))"

definition protocol :: "nat \<Rightarrow> host \<Rightarrow> unit prog" where
  "protocol ncopy h = bind_prog (init ncopy h) (\<lambda>_. read_temperature h)"

definition teardown ::
  "bool \<Rightarrow> host \<Rightarrow> usb_attach_interface \<Rightarrow> usb_attach_interface \<Rightarrow>
     (abrupt + unit) \<times> event list \<Rightarrow> (abrupt + unit) \<times> event list" where
  "teardown nx h a1 a2 out =
     destroy nx (libusb_void Libusb_exit)
    (destroy nx (libusb_void Libusb_close)
    (destroy nx (usb_attach_interface_dtor h a1)
    (destroy nx (usb_attach_interface_dtor h a2)
    (destroy nx (usb_claim_interface_dtor h \<lparr>claimed_interface = 0\<rparr>)
    (destroy nx (usb_claim_interface_dtor h \<lparr>claimed_interface = 1\<rparr>) out)))))"

text \<open>A host on which releasing an interface and reattaching the kernel driver never fail.\<close>

definition cleanup_succeeds :: "host \<Rightarrow> bool" where
  "cleanup_succeeds h \<longleftrightarrow>
     (\<forall>tr i. 0 \<le> ret h tr (Release_interface i) \<and> 0 \<le> ret h tr (Attach_kernel_driver i))"

text \<open>What the destructor of an attach guard is expected to do.\<close>

definition reattach :: "usb_attach_interface \<Rightarrow> event list" where
  "reattach a = (if was_attached a then [Call (Attach_kernel_driver (interface a))] else [])"

text \<open>A control transfer, in either direction.\<close>

definition transfer :: "event \<Rightarrow> bool" where
  "transfer e = (case e of Call (Control_out _) \<Rightarrow> True | Call Control_in \<Rightarrow> True | _ \<Rightarrow> False)"

text \<open>What the destructors of the locals of \<open>main\<close> may add to the trace.\<close>

definition cleanup_event :: "event \<Rightarrow> bool" where
  "cleanup_event e =
     (case e of
        Call (Release_interface _) \<Rightarrow> True
      | Call (Attach_kernel_driver _) \<Rightarrow> True
      | Call Libusb_close \<Rightarrow> True
      | Call Libusb_exit \<Rightarrow> True
      | Cerr_guard _ \<Rightarrow> True
      | _ \<Rightarrow> False)"

text \<open>What the init block adds to the trace when its copy runs past the end of \<open>dinfo\<close>.\<close>

definition past_end_event :: "nat \<Rightarrow> u8 list \<Rightarrow> event list" where
  "past_end_event ncopy dinfo_raw =
     (if drop sizeof_dev_info (take ncopy dinfo_raw) = [] then []
      else [Write_past_end (drop sizeof_dev_info (take ncopy dinfo_raw))])"

text \<open>A write past the end of an object.\<close>

definition past_end :: "event \<Rightarrow> bool" where
  "past_end e = (case e of Write_past_end _ \<Rightarrow> True | _ \<Rightarrow> False)"

text \<open>
  What the decoder needs of the floating-point format: a number with a significand of at
  most 24 bits and an exponent in the normal range of binary32 is not rounded. Both
  \<open>float\<close> (binary32) and \<open>double\<close> (binary64) are such formats.
\<close>

definition rounds_exactly :: "(real \<Rightarrow> real) \<Rightarrow> bool" where
  "rounds_exactly rnd \<longleftrightarrow>
     (\<forall>m k :: nat. m < 2 ^ 24 \<and> k \<le> 126 \<longrightarrow> rnd (real m / 2 ^ k) = real m / 2 ^ k)"

text \<open>
  Rounding to the nearest number of a binary format with \<open>p\<close> bits of significand and
  least normal exponent \<open>emin\<close>, ties to even, with gradual underflow. Overflow to infinity
  is left out (no value of the program comes near it). \<open>float\<close> is binary32, \<open>double\<close>
  is binary64.
\<close>

definition nearest_even :: "real \<Rightarrow> int" where
  "nearest_even q =
     (let n = \<lfloor>q\<rfloor>
      in if q - real_of_int n < 1 / 2 then n
         else if 1 / 2 < q - real_of_int n then n + 1
         else if even n then n else n + 1)"

definition round_nearest :: "nat \<Rightarrow> int \<Rightarrow> real \<Rightarrow> real" where
  "round_nearest p emin x =
     (if x = 0 then 0
      else
        let e = max \<lfloor>log 2 \<bar>x\<bar>\<rfloor> emin - (int p - 1)
        in real_of_int (nearest_even (x / 2 powr real_of_int e)) * 2 powr real_of_int e)"

definition binary32 :: "real \<Rightarrow> real" where
  "binary32 = round_nearest 24 (- 126)"

definition binary64 :: "real \<Rightarrow> real" where
  "binary64 = round_nearest 53 (- 1022)"

text \<open>
  A transfer is accepted when the host returns what the transport checks for: 32 for an
  outbound transfer, 256 or more for an inbound one.
\<close>

definition accepted :: "host \<Rightarrow> event list \<Rightarrow> event \<Rightarrow> bool" where
  "accepted h tr e =
     (case e of
        Call (Control_out m) \<Rightarrow> ret h tr (Control_out m) = 32
      | Call Control_in \<Rightarrow> 256 \<le> ret h tr Control_in
      | _ \<Rightarrow> True)"

text \<open>
  Carrying out a script of transfers from trace \<open>tr\<close>: each transfer is made, and the next
  one only if this one was accepted. \<open>all_accepted\<close>: every transfer of the script is
  accepted when its turn comes.
\<close>

fun run_script :: "host \<Rightarrow> event list \<Rightarrow> event list \<Rightarrow> event list" where
  "run_script h tr [] = []"
| "run_script h tr (e # s) = e # (if accepted h tr e then run_script h (tr @ [e]) s else [])"

fun all_accepted :: "host \<Rightarrow> event list \<Rightarrow> event list \<Rightarrow> bool" where
  "all_accepted h tr [] = True"
| "all_accepted h tr (e # s) = (accepted h tr e \<and> all_accepted h (tr @ [e]) s)"

text \<open>
  \<open>exact h p s\<close>: from any trace, \<open>p\<close> carries out the script \<open>s\<close>, and ends normally
  exactly when every transfer of it is accepted.
\<close>

definition exact :: "host \<Rightarrow> 'a prog \<Rightarrow> event list \<Rightarrow> bool" where
  "exact h p s \<longleftrightarrow>
     (\<forall>tr. snd (p tr) = tr @ run_script h tr s \<and> (isl (fst (p tr)) = (\<not> all_accepted h tr s)))"

text \<open>A host on which every control transfer is accepted.\<close>

definition transfers_succeed :: "host \<Rightarrow> bool" where
  "transfers_succeed h \<longleftrightarrow>
     (\<forall>tr m. ret h tr (Control_out m) = 32 \<and> 256 \<le> ret h tr Control_in)"

text \<open>A temperature written to \<open>std::cout\<close>.\<close>

definition cout :: "event \<Rightarrow> bool" where
  "cout e = (case e of Cout _ \<Rightarrow> True | _ \<Rightarrow> False)"

text \<open>
  \<open>short_read_in k h tr ev\<close>: among the events \<open>ev\<close>, produced from trace \<open>tr\<close> on, there is
  an inbound transfer that succeeded with fewer than \<open>k\<close> bytes.
\<close>

fun short_read_in :: "int \<Rightarrow> host \<Rightarrow> event list \<Rightarrow> event list \<Rightarrow> bool" where
  "short_read_in k h tr [] = False"
| "short_read_in k h tr (e # ev) =
     ((e = Call Control_in \<and> 0 \<le> ret h tr Control_in \<and> ret h tr Control_in < k)
      \<or> short_read_in k h (tr @ [e]) ev)"


text \<open>
  \<open>quiet k h p\<close>: \<open>p\<close> writes no temperature, and fails if one of its inbound transfers is
  short. \<open>aborts_on_short_read k h p\<close>: if one of the inbound transfers of \<open>p\<close> is short,
  \<open>p\<close> fails and has written no temperature.
\<close>

definition quiet :: "int \<Rightarrow> host \<Rightarrow> 'a prog \<Rightarrow> bool" where
  "quiet k h p \<longleftrightarrow>
     (\<forall>tr. \<exists>ev. snd (p tr) = tr @ ev \<and> \<not> list_ex cout ev
                \<and> (short_read_in k h tr ev \<longrightarrow> isl (fst (p tr))))"

definition aborts_on_short_read :: "int \<Rightarrow> host \<Rightarrow> 'a prog \<Rightarrow> bool" where
  "aborts_on_short_read k h p \<longleftrightarrow>
     (\<forall>tr. \<exists>ev. snd (p tr) = tr @ ev
                \<and> (short_read_in k h tr ev \<longrightarrow> isl (fst (p tr)) \<and> \<not> list_ex cout ev))"

section \<open>Example hosts\<close>

text \<open>
  A TEMPer1 behind a root hub, on a little-endian machine: every call succeeds, the kernel
  driver is bound to both interfaces, the device-info report starts \<open>57 58\<close> and the data
  report \<open>14 80\<close>. Its floating-point unit rounds nothing, which is what any IEEE format
  does on the values the program computes (see the proofs of the decoder).
\<close>

definition plugged :: host where
  "plugged =
     \<lparr>ret = (\<lambda>tr c. case c of Control_out _ \<Rightarrow> 32 | Control_in \<Rightarrow> 256
                      | Kernel_driver_active _ \<Rightarrow> 1 | _ \<Rightarrow> 0),
      inbound = (\<lambda>tr. if Call Control_in \<in> set tr then 0x14 # 0x80 # replicate 254 0
                      else 0x57 # 0x58 # replicate 254 0),
      indeterminate = (\<lambda>_. []),
      devlist = [(0x1d6b, 0x0002), (0x1130, 0x660c)],
      big_endian = False,
      fl = (\<lambda>x. x)\<rparr>"

text \<open>
  The trace of the acquisition phase on this host (the thermometer is the second device of
  the snapshot), and a guard of an interface the kernel driver was bound to.
\<close>

definition plugged_acquired :: "event list" where
  "plugged_acquired =
     [Call Libusb_init, Call Get_device_list, Call (Get_device_descriptor 0),
      Call (Get_device_descriptor 1), Call (Libusb_open 1), Call Free_device_list,
      Call (Kernel_driver_active 0), Call (Detach_kernel_driver 0),
      Call (Kernel_driver_active 1), Call (Detach_kernel_driver 1),
      Call (Set_configuration 1), Call (Claim_interface 0), Call (Claim_interface 1)]"

definition attached :: "int \<Rightarrow> usb_attach_interface" where
  "attached i = \<lparr>interface = i, was_attached = True\<rparr>"

text \<open>The same device answering every inbound transfer with two bytes only.\<close>

definition two_bytes :: host where
  "two_bytes = plugged\<lparr>ret := (\<lambda>tr c. if c = Control_in then 2 else ret plugged tr c)\<rparr>"

text \<open>Two thermometers behind the hub, and none.\<close>

definition two_thermometers :: host where
  "two_thermometers = plugged\<lparr>devlist := [(0x1d6b, 0x0002), (0x1130, 0x660c), (0x1130, 0x660c)]\<rparr>"

definition unplugged :: host where
  "unplugged = plugged\<lparr>devlist := [(0x1d6b, 0x0002)]\<rparr>"

text \<open>A device that answers with zeros only: its type word is \<open>0x0000\<close>.\<close>

definition unknown_type :: host where
  "unknown_type = plugged\<lparr>inbound := (\<lambda>tr. replicate 256 0)\<rparr>"

text \<open>
  The thermometer is pulled out after the device-info report was read: from then on every
  call returns \<open>LIBUSB_ERROR_NO_DEVICE\<close>.
\<close>

definition yanked :: host where
  "yanked = plugged\<lparr>ret := (\<lambda>tr c. if Call Control_in \<in> set tr then - 4 else ret plugged tr c)\<rparr>"

text \<open>Every call succeeds but the release of interface 1.\<close>

definition release_fails :: host where
  "release_fails = plugged\<lparr>ret := (\<lambda>tr c. if c = Release_interface 1 then - 4 else ret plugged tr c)\<rparr>"

text \<open>A device-info report of a TEMPer1 whose bytes from the third on are \<open>AA\<close>.\<close>

definition noisy :: host where
  "noisy = plugged\<lparr>inbound := (\<lambda>tr. if Call Control_in \<in> set tr then inbound plugged tr
                                     else 0x57 # 0x58 # replicate 254 0xAA)\<rparr>"

text \<open>
  The thermometer is pulled out as soon as both interfaces are claimed: from then on every
  call returns \<open>LIBUSB_ERROR_NO_DEVICE\<close>.
\<close>

definition yanked_after_claim :: host where
  "yanked_after_claim =
     plugged\<lparr>ret := (\<lambda>tr c. if Call (Claim_interface 1) \<in> set tr then - 4 else ret plugged tr c)\<rparr>"

text \<open>A device whose type word is \<open>0x0000\<close>, on a host where the release of interface 1 fails.\<close>

definition unknown_type_release_fails :: host where
  "unknown_type_release_fails =
     unknown_type\<lparr>ret := (\<lambda>tr c. if c = Release_interface 1 then - 4 else ret plugged tr c)\<rparr>"



section \<open>Transport: proofs\<close>

lemma usb_send_eq:
  "usb_send h d tr =
     (if ret h tr (Control_out d) < 0 then Inl (Throw (Usb_error (ret h tr (Control_out d))))
      else if ret h tr (Control_out d) \<noteq> 32
        then Inl (Throw (Runtime_error (Wrong_number_of_bytes_written (ret h tr (Control_out d)))))
      else Inr (),
      tr @ [Call (Control_out d)])"
  by (simp add: usb_send_def bind_prog_def libusb_def check_def throw_def return_prog_def)

lemma send_data_eq:
  "send_data h d tr =
     usb_send h (map ucast d @ replicate (32 - length d) 0) tr"
  by (simp add: send_data_def usb_send_def Let_def)

lemma usb_recv_eq:
  "usb_recv h tr =
     (if ret h tr Control_in < 0 then Inl (Throw (Usb_error (ret h tr Control_in)))
      else if ret h tr Control_in < 256
        then Inl (Throw (Runtime_error (Wrong_number_of_bytes_read (ret h tr Control_in))))
      else Inr (overwrite (uninitialised h 256 tr) (take (nat (ret h tr Control_in)) (inbound h tr))),
      tr @ [Call Control_in])"
  by (simp add: usb_recv_def libusb_control_transfer_in_def bind_prog_def check_def throw_def
      return_prog_def Let_def)


text \<open>
  C8. \<open>usb_send\<close> (and \<open>send_data\<close> of the oldest variant) fails exactly when the control
  transfer returns an error code or a byte count other than 32: with \<open>usb_error\<close> for a
  negative code, with the "wrong number of bytes written" \<open>runtime_error\<close> for any other
  count that is not 32. A transfer of 32 bytes returns normally. In every case exactly one
  transfer is made: nothing is retried.
\<close>

theorem usb_send_fails_exactly:
  fixes h :: host and tr :: "event list" and data :: "u8 list" and msg :: "32 word list"
  defines "r \<equiv> ret h tr (Control_out data)"
      and "buf \<equiv> map ucast msg @ replicate (32 - length msg) (0 :: u8)"
  defines "r' \<equiv> ret h tr (Control_out buf)"
  shows "(isl (fst (usb_send h data tr)) \<longleftrightarrow> r < 0 \<or> r \<noteq> 32)
       \<and> (fst (usb_send h data tr) = Inl (Throw (Usb_error r)) \<longleftrightarrow> r < 0)
       \<and> (fst (usb_send h data tr) = Inl (Throw (Runtime_error (Wrong_number_of_bytes_written r)))
            \<longleftrightarrow> 0 \<le> r \<and> r \<noteq> 32)
       \<and> (fst (usb_send h data tr) = Inr () \<longleftrightarrow> r = 32)
       \<and> snd (usb_send h data tr) = tr @ [Call (Control_out data)]
       \<and> (isl (fst (send_data h msg tr)) \<longleftrightarrow> r' < 0 \<or> r' \<noteq> 32)
       \<and> (fst (send_data h msg tr) = Inl (Throw (Usb_error r')) \<longleftrightarrow> r' < 0)
       \<and> (fst (send_data h msg tr) = Inl (Throw (Runtime_error (Wrong_number_of_bytes_written r')))
            \<longleftrightarrow> 0 \<le> r' \<and> r' \<noteq> 32)
       \<and> (fst (send_data h msg tr) = Inr () \<longleftrightarrow> r' = 32)
       \<and> snd (send_data h msg tr) = tr @ [Call (Control_out buf)]"
  unfolding r_def r'_def buf_def send_data_eq by (simp add: usb_send_eq)


section \<open>Command protocol: proofs\<close>

lemma scripted_return: "scripted (return_prog x) []"
  by (simp add: scripted_def emitted_def return_prog_def)

lemma scripted_usb_send: "scripted (usb_send h d) [Call (Control_out d)]"
  by (simp add: scripted_def emitted_def usb_send_eq)

lemma scripted_usb_recv: "scripted (usb_recv h) [Call Control_in]"
  by (simp add: scripted_def emitted_def usb_recv_eq)

lemma scripted_bind:
  assumes p: "scripted p s" and f: "\<And>x. scripted (f x) t"
  shows "scripted (bind_prog p f) (s @ t)"
  unfolding scripted_def
proof (intro allI)
  fix tr
  obtain res tr1 where run: "p tr = (res, tr1)"
    by (cases "p tr")
  from p have "snd (p tr) = tr @ emitted p tr \<and> prefix (emitted p tr) s \<and>
      (isl (fst (p tr)) \<or> emitted p tr = s)"
    unfolding scripted_def by (rule spec)
  then have a: "tr1 = tr @ emitted p tr" "prefix (emitted p tr) s"
    "isl res \<or> emitted p tr = s"
    using run by simp_all
  show "snd (bind_prog p f tr) = tr @ emitted (bind_prog p f) tr \<and>
        prefix (emitted (bind_prog p f) tr) (s @ t) \<and>
        (isl (fst (bind_prog p f tr)) \<or> emitted (bind_prog p f) tr = s @ t)"
  proof (cases res)
    case (Inl ab)
    then have step: "bind_prog p f tr = (Inl ab, tr1)"
      using run by (simp add: bind_prog_def)
    then have "emitted (bind_prog p f) tr = emitted p tr"
      by (simp add: emitted_def run)
    with a(1,2) step show ?thesis
      by simp
  next
    case (Inr x)
    then have step: "bind_prog p f tr = f x tr1"
      using run by (simp add: bind_prog_def)
    from Inr a have tr1: "tr1 = tr @ s"
      by simp
    from f [of x] have b: "snd (f x tr1) = tr1 @ emitted (f x) tr1"
      "prefix (emitted (f x) tr1) t" "isl (fst (f x tr1)) \<or> emitted (f x) tr1 = t"
      by (auto simp: scripted_def)
    have "snd (bind_prog p f tr) = tr @ (s @ emitted (f x) tr1)"
      using b(1) step tr1 by simp
    then have e: "emitted (bind_prog p f) tr = s @ emitted (f x) tr1"
      by (simp add: emitted_def)
    show ?thesis
      using b e step tr1 by auto
  qed
qed

lemma scripted_send_times:
  "scripted (send_times n h b) (replicate n (Call (Control_out b)))"
proof (induction n)
  case 0
  show ?case by (simp add: scripted_return)
next
  case (Suc n)
  have "scripted (send_times (Suc n) h b)
          ([Call (Control_out b)] @ replicate n (Call (Control_out b)))"
    unfolding send_times.simps by (rule scripted_bind [OF scripted_usb_send Suc])
  then show ?case by simp
qed

text \<open>The buffers the source builds are the messages of the specification.\<close>

lemma msg32_select_device:
  "msg32_init [0x0a, 0x0b, 0x0c, 0x0d, 0x00, 0x00, 0x02, 0x00] = select_device"
  by (simp add: msg32_init_def select_device_def)

lemma msg32_request_read: "msg32_init [10, 11, 12, 13, 0, 0, 1, 0] = request_read"
  by (simp add: msg32_init_def request_read_def)

lemma msg32_padding: "msg32_init [0] = padding"
  by (simp add: msg32_init_def padding_def numeral_eq_Suc)

lemma msg32_command: "padding[0 := op] = command op"
  by (simp add: padding_def command_def numeral_eq_Suc)

lemma scripted_send_cmd: "scripted (send_cmd h op) (send_cmd_script op)"
proof -
  have "scripted (send_cmd h op)
          ([Call (Control_out select_device)] @ [Call (Control_out (command op))]
             @ replicate 7 (Call (Control_out padding)))"
    unfolding send_cmd_def msg32_select_device msg32_padding msg32_command
    by (intro scripted_bind scripted_usb_send scripted_send_times)
  then show ?thesis by (simp add: send_cmd_script_def)
qed

lemma scripted_read_data: "scripted (read_data h op) (read_data_script op)"
proof -
  have "scripted (read_data h op)
          (send_cmd_script op @ [Call (Control_out request_read)] @ [Call Control_in])"
    unfolding read_data_def msg32_request_read
    by (intro scripted_bind scripted_usb_send scripted_send_cmd scripted_usb_recv)
  then show ?thesis by (simp add: read_data_script_def)
qed

lemma read_data_script_length: "length (read_data_script op) = 11"
  by (simp add: read_data_script_def send_cmd_script_def)

lemma Control_in_last:
  assumes "prefix ev (read_data_script op)" and "Call Control_in \<in> set ev"
  shows "ev = read_data_script op"
proof -
  let ?outs = "send_cmd_script op @ [Call (Control_out request_read)]"
  have script: "read_data_script op = ?outs @ [Call Control_in]"
    by (simp add: read_data_script_def)
  have no_in: "Call Control_in \<notin> set ?outs"
    by (auto simp: send_cmd_script_def)
  from assms(1) script have "prefix ev ?outs \<or> ev = read_data_script op"
    by (metis prefix_snoc)
  with assms(2) no_in show ?thesis
    by (meson in_mono set_mono_prefix)
qed

lemma all_accepted_append:
  "all_accepted h tr (s @ t) = (all_accepted h tr s \<and> all_accepted h (tr @ s) t)"
  by (induction s arbitrary: tr) simp_all

lemma run_script_all_accepted: "all_accepted h tr s \<Longrightarrow> run_script h tr s = s"
  by (induction s arbitrary: tr) simp_all

lemma run_script_append:
  "run_script h tr (s @ t) =
     (if all_accepted h tr s then s @ run_script h (tr @ s) t else run_script h tr s)"
  by (induction s arbitrary: tr) simp_all

lemma exact_return: "exact h (return_prog x) []"
  by (simp add: exact_def return_prog_def)

lemma exact_usb_send: "exact h (usb_send h d) [Call (Control_out d)]"
  by (auto simp: exact_def usb_send_eq accepted_def)

lemma exact_usb_recv: "exact h (usb_recv h) [Call Control_in]"
  by (auto simp: exact_def usb_recv_eq accepted_def)

lemma exact_bind:
  assumes p: "exact h p s" and f: "\<And>x. exact h (f x) t"
  shows "exact h (bind_prog p f) (s @ t)"
  unfolding exact_def
proof (intro allI)
  fix tr
  obtain res tr1 where run: "p tr = (res, tr1)"
    by (cases "p tr")
  from p have "snd (p tr) = tr @ run_script h tr s \<and> isl (fst (p tr)) = (\<not> all_accepted h tr s)"
    unfolding exact_def by (rule spec)
  with run have a: "tr1 = tr @ run_script h tr s" "isl res = (\<not> all_accepted h tr s)"
    by simp_all
  show "snd (bind_prog p f tr) = tr @ run_script h tr (s @ t) \<and>
        isl (fst (bind_prog p f tr)) = (\<not> all_accepted h tr (s @ t))"
  proof (cases res)
    case (Inl ab)
    with a run show ?thesis
      by (simp add: bind_prog_def run_script_append all_accepted_append)
  next
    case (Inr x)
    with a have acc: "all_accepted h tr s"
      by simp
    then have tr1: "tr1 = tr @ s"
      using a(1) by (simp add: run_script_all_accepted)
    from f [of x] have "snd (f x tr1) = tr1 @ run_script h tr1 t \<and>
        isl (fst (f x tr1)) = (\<not> all_accepted h tr1 t)"
      unfolding exact_def by (rule spec)
    then have "snd (f x tr1) = tr1 @ run_script h tr1 t"
      "isl (fst (f x tr1)) = (\<not> all_accepted h tr1 t)"
      by simp_all
    with run Inr acc tr1 show ?thesis
      by (simp add: bind_prog_def run_script_append all_accepted_append)
  qed
qed

lemma exact_send_times: "exact h (send_times n h b) (replicate n (Call (Control_out b)))"
proof (induction n)
  case 0
  show ?case by (simp add: exact_return)
next
  case (Suc n)
  have "exact h (send_times (Suc n) h b)
          ([Call (Control_out b)] @ replicate n (Call (Control_out b)))"
    unfolding send_times.simps by (rule exact_bind [OF exact_usb_send Suc])
  then show ?case by simp
qed

lemma exact_send_cmd: "exact h (send_cmd h op) (send_cmd_script op)"
proof -
  have "exact h (send_cmd h op)
          ([Call (Control_out select_device)] @ [Call (Control_out (command op))]
             @ replicate 7 (Call (Control_out padding)))"
    unfolding send_cmd_def msg32_select_device msg32_padding msg32_command
    by (intro exact_bind exact_usb_send exact_send_times)
  then show ?thesis by (simp add: send_cmd_script_def)
qed

lemma exact_read_data: "exact h (read_data h op) (read_data_script op)"
proof -
  have "exact h (read_data h op)
          (send_cmd_script op @ [Call (Control_out request_read)] @ [Call Control_in])"
    unfolding read_data_def msg32_request_read
    by (intro exact_bind exact_usb_send exact_send_cmd exact_usb_recv)
  then show ?thesis by (simp add: read_data_script_def)
qed

lemma transfers_succeed_all_accepted:
  "transfers_succeed h \<Longrightarrow> all_accepted h tr s"
  by (induction s arbitrary: tr)
    (auto simp: transfers_succeed_def accepted_def split: event.splits call.splits)

text \<open>
  C1. Whatever the opcode and whatever the host answers, \<open>read_data\<close> carries out the
  eleven-step script: select device, the command message, seven padding messages, the
  read request, one inbound transfer, each step made exactly when all steps before it
  were accepted. So what it appends to the trace is an initial part of the script, never
  empty; the inbound transfer happens only after all ten outbound messages, in that
  order; \<open>read_data\<close> returns a report exactly when all eleven transfers are accepted; and
  on a host that accepts every transfer it makes exactly the ten sends and the one
  inbound transfer, and returns.
\<close>

theorem read_data_order:
  "snd (read_data h op tr) = tr @ emitted (read_data h op) tr
   \<and> prefix (emitted (read_data h op) tr)
        ([Call (Control_out ([10, 11, 12, 13, 0, 0, 2, 0] @ replicate 24 0)),
          Call (Control_out (op # replicate 31 0)),
          Call (Control_out (replicate 32 0)), Call (Control_out (replicate 32 0)),
          Call (Control_out (replicate 32 0)), Call (Control_out (replicate 32 0)),
          Call (Control_out (replicate 32 0)), Call (Control_out (replicate 32 0)),
          Call (Control_out (replicate 32 0)),
          Call (Control_out ([10, 11, 12, 13, 0, 0, 1, 0] @ replicate 24 0)),
          Call Control_in])
   \<and> (Call Control_in \<in> set (emitted (read_data h op) tr)
        \<longrightarrow> emitted (read_data h op) tr = read_data_script op)
   \<and> (isl (fst (read_data h op tr)) \<or> emitted (read_data h op) tr = read_data_script op)
   \<and> length (read_data_script op) = 11
   \<and> emitted (read_data h op) tr = run_script h tr (read_data_script op)
   \<and> take 1 (emitted (read_data h op) tr)
        = [Call (Control_out ([10, 11, 12, 13, 0, 0, 2, 0] @ replicate 24 0))]
   \<and> (isl (fst (read_data h op tr)) = (\<not> all_accepted h tr (read_data_script op)))
   \<and> (transfers_succeed h \<longrightarrow>
        emitted (read_data h op) tr = read_data_script op \<and> \<not> isl (fst (read_data h op tr)))"
proof -
  have script: "read_data_script op =
        [Call (Control_out ([10, 11, 12, 13, 0, 0, 2, 0] @ replicate 24 0)),
          Call (Control_out (op # replicate 31 0)),
          Call (Control_out (replicate 32 0)), Call (Control_out (replicate 32 0)),
          Call (Control_out (replicate 32 0)), Call (Control_out (replicate 32 0)),
          Call (Control_out (replicate 32 0)), Call (Control_out (replicate 32 0)),
          Call (Control_out (replicate 32 0)),
          Call (Control_out ([10, 11, 12, 13, 0, 0, 1, 0] @ replicate 24 0)),
          Call Control_in]"
    unfolding read_data_script_def send_cmd_script_def select_device_def command_def
      padding_def request_read_def
    by (simp add: numeral_eq_Suc)
  have s: "snd (read_data h op tr) = tr @ emitted (read_data h op) tr"
    "prefix (emitted (read_data h op) tr) (read_data_script op)"
    "isl (fst (read_data h op tr)) \<or> emitted (read_data h op) tr = read_data_script op"
    using scripted_read_data [of h op] by (auto simp: scripted_def)
  have "snd (read_data h op tr) = tr @ run_script h tr (read_data_script op) \<and>
      isl (fst (read_data h op tr)) = (\<not> all_accepted h tr (read_data_script op))"
    using exact_read_data [of h op] unfolding exact_def by (rule spec)
  then have e: "emitted (read_data h op) tr = run_script h tr (read_data_script op)"
    "isl (fst (read_data h op tr)) = (\<not> all_accepted h tr (read_data_script op))"
    by (simp_all add: emitted_def)
  have first: "take 1 (run_script h tr (read_data_script op))
      = [Call (Control_out ([10, 11, 12, 13, 0, 0, 2, 0] @ replicate 24 0))]"
    by (simp add: read_data_script_def send_cmd_script_def select_device_def)
  have all: "emitted (read_data h op) tr = read_data_script op \<and> \<not> isl (fst (read_data h op tr))"
    if "transfers_succeed h"
    using e transfers_succeed_all_accepted [OF that, of tr "read_data_script op"]
    by (simp add: run_script_all_accepted)
  show ?thesis
    using s Control_in_last [OF s(2)] read_data_script_length [of op] e first all
    unfolding script [symmetric] by metis
qed

theorem read_data_order_witness:
  "transfers_succeed plugged
   \<and> Call Control_in \<in> set (emitted (read_data plugged cmd_devtype) [])
   \<and> emitted (read_data plugged cmd_devtype) [] = read_data_script cmd_devtype
   \<and> \<not> isl (fst (read_data plugged cmd_devtype []))
   \<and> length (emitted (read_data plugged cmd_devtype) []) = 11"
proof -
  have ok: "transfers_succeed plugged"
    by (simp add: transfers_succeed_def plugged_def)
  note inst = read_data_order [of plugged cmd_devtype "[]"]
  from inst ok have all: "emitted (read_data plugged cmd_devtype) [] = read_data_script cmd_devtype"
    "\<not> isl (fst (read_data plugged cmd_devtype []))"
    by blast+
  from inst have "length (read_data_script cmd_devtype) = 11"
    by blast
  moreover have "Call Control_in \<in> set (read_data_script cmd_devtype)"
    by (simp add: read_data_script_def)
  ultimately show ?thesis
    using ok all by simp
qed

section \<open>Invariants of the trace\<close>

lemma emits_onlyD:
  assumes "emits_only P p"
  shows "snd (p tr) = tr @ emitted p tr" and "list_all P (emitted p tr)"
proof -
  from assms obtain ev where ev: "snd (p tr) = tr @ ev" "list_all P ev"
    unfolding emits_only_def by blast
  then have "emitted p tr = ev"
    by (simp add: emitted_def)
  with ev show "snd (p tr) = tr @ emitted p tr" and "list_all P (emitted p tr)"
    by simp_all
qed

lemma emits_only_return: "emits_only P (return_prog x)"
  by (simp add: emits_only_def return_prog_def)

lemma emits_only_throw: "emits_only P (throw e)"
  by (simp add: emits_only_def throw_def)

lemma emits_only_check: "emits_only P (check r)"
  by (simp add: check_def emits_only_return emits_only_throw)

lemma emits_only_libusb: "P (Call c) \<Longrightarrow> emits_only P (libusb h c)"
  by (simp add: emits_only_def libusb_def)

lemma emits_only_libusb_void: "P (Call c) \<Longrightarrow> emits_only P (libusb_void c)"
  by (simp add: emits_only_def libusb_void_def)

lemma emits_only_bind:
  assumes "emits_only P p" and "\<And>x. emits_only P (f x)"
  shows "emits_only P (bind_prog p f)"
  unfolding emits_only_def
proof
  fix tr
  obtain res tr1 where run: "p tr = (res, tr1)"
    by (cases "p tr")
  from assms(1) obtain ev where ev: "tr1 = tr @ ev" "list_all P ev"
    unfolding emits_only_def using run by (metis snd_conv)
  show "\<exists>ev. snd (bind_prog p f tr) = tr @ ev \<and> list_all P ev"
  proof (cases res)
    case (Inl a)
    with run ev show ?thesis
      by (auto simp: bind_prog_def)
  next
    case (Inr x)
    from assms(2) [of x] obtain ev' where ev': "snd (f x tr1) = tr1 @ ev'" "list_all P ev'"
      unfolding emits_only_def by blast
    have "snd (bind_prog p f tr) = tr @ (ev @ ev')" "list_all P (ev @ ev')"
      using run Inr ev ev' by (simp_all add: bind_prog_def)
    then show ?thesis
      by blast
  qed
qed

lemma emits_only_destroy:
  assumes "emits_only P dtor" and "snd out = tr @ ev" and "list_all P ev"
  shows "\<exists>ev'. snd (destroy nx dtor out) = tr @ ev' \<and> list_all P ev'"
proof -
  obtain res tr1 where out: "out = (res, tr1)"
    by (cases out)
  obtain r2 tr2 where d: "dtor tr1 = (r2, tr2)"
    by (cases "dtor tr1")
  from assms(1) obtain ev2 where ev2: "tr2 = tr1 @ ev2" "list_all P ev2"
    unfolding emits_only_def using d by (metis snd_conv)
  have "snd (destroy nx dtor out) = tr1 \<or> snd (destroy nx dtor out) = tr2"
    using out d by (auto simp: destroy_def split: sum.splits abrupt.splits)
  then have "snd (destroy nx dtor out) = tr @ ev \<or> snd (destroy nx dtor out) = tr @ (ev @ ev2)"
    using assms(2) out ev2 by auto
  then show ?thesis
    using assms(3) ev2(2) by (metis list_all_append)
qed

lemma emits_only_scoped:
  assumes "emits_only P ctor" and "\<And>x. emits_only P (dtor x)" and "\<And>x. emits_only P (body x)"
  shows "emits_only P (scoped nx ctor dtor body)"
proof -
  have "emits_only P (\<lambda>tr. destroy nx (dtor x) (body x tr))" for x
    unfolding emits_only_def
  proof
    fix tr
    from assms(3) [of x] obtain ev where "snd (body x tr) = tr @ ev" "list_all P ev"
      unfolding emits_only_def by blast
    then show "\<exists>ev. snd (destroy nx (dtor x) (body x tr)) = tr @ ev \<and> list_all P ev"
      by (rule emits_only_destroy [OF assms(2)])
  qed
  then show ?thesis
    unfolding scoped_def by (intro emits_only_bind assms(1))
qed

lemma emits_only_function_try_dtor:
  assumes "emits_only P body" and "\<And>e. P (Cerr_guard e)"
  shows "emits_only P (function_try_dtor body)"
  unfolding emits_only_def
proof
  fix tr
  from assms(1) obtain ev where ev: "snd (body tr) = tr @ ev" "list_all P ev"
    unfolding emits_only_def by blast
  then show "\<exists>ev. snd (function_try_dtor body tr) = tr @ ev \<and> list_all P ev"
    using assms(2)
    by (cases "body tr") (auto simp: function_try_dtor_def split: sum.splits abrupt.splits exn.splits)
qed

lemma emits_only_scripted:
  assumes "scripted p s" and "list_all P s"
  shows "emits_only P p"
  unfolding emits_only_def
proof
  fix tr
  from assms(1) have "snd (p tr) = tr @ emitted p tr" "prefix (emitted p tr) s"
    by (simp_all add: scripted_def)
  moreover from this(2) assms(2) have "list_all P (emitted p tr)"
    by (metis list_all_append prefixE)
  ultimately show "\<exists>ev. snd (p tr) = tr @ ev \<and> list_all P ev"
    by blast
qed


lemma outbound_ok_simps [simp]:
  "outbound_ok (Cerr_guard e)" "outbound_ok (Cerr_main e)" "outbound_ok (Cout x)"
  "outbound_ok (Write_past_end bs)"
  "outbound_ok (Call Libusb_init)" "outbound_ok (Call Libusb_exit)"
  "outbound_ok (Call Get_device_list)" "outbound_ok (Call Free_device_list)"
  "outbound_ok (Call (Get_device_descriptor n))" "outbound_ok (Call (Libusb_open n))"
  "outbound_ok (Call Libusb_close)" "outbound_ok (Call (Kernel_driver_active i))"
  "outbound_ok (Call (Detach_kernel_driver i))" "outbound_ok (Call (Attach_kernel_driver i))"
  "outbound_ok (Call (Claim_interface i))" "outbound_ok (Call (Release_interface i))"
  "outbound_ok (Call (Set_configuration i))" "outbound_ok (Call Control_in)"
  by (simp_all add: outbound_ok_def)

lemma outbound_ok_scripts:
  "list_all outbound_ok (send_cmd_script op)" "list_all outbound_ok (read_data_script op)"
  by (simp_all add: read_data_script_def send_cmd_script_def outbound_ok_def select_device_def
      command_def padding_def request_read_def list_all_iff)

lemma emits_only_scan_devices:
  assumes "\<And>n. P (Call (Get_device_descriptor n))" and "\<And>n. P (Call (Libusb_open n))"
  shows "emits_only P (scan_devices h v p dev ds)"
proof (induction ds arbitrary: dev)
  case Nil
  show ?case by (simp add: emits_only_throw)
next
  case (Cons d ds)
  show ?case
    unfolding scan_devices.simps
    by (intro emits_only_bind emits_only_libusb emits_only_check assms)
       (simp add: Cons emits_only_bind emits_only_libusb emits_only_check emits_only_return assms)
qed

lemma emits_only_usb_device_get:
  assumes "\<And>n. P (Call (Get_device_descriptor n))" and "\<And>n. P (Call (Libusb_open n))"
    and "P (Call Get_device_list)" and "P (Call Free_device_list)"
  shows "emits_only P (usb_device_get h v p)"
  unfolding usb_device_get_def
  by (intro emits_only_scoped emits_only_scan_devices emits_only_libusb_void assms)
     (simp add: emits_only_def usb_device_list_def assms)

lemma emits_only_attach_ctor:
  assumes "P (Call (Kernel_driver_active i))" and "P (Call (Detach_kernel_driver i))"
  shows "emits_only P (usb_attach_interface_ctor h i)"
  unfolding usb_attach_interface_ctor_def
  by (intro emits_only_bind emits_only_libusb emits_only_check assms)
     (simp add: Let_def emits_only_bind emits_only_libusb emits_only_check emits_only_return assms)

lemma emits_only_attach_dtor:
  assumes "P (Call (Attach_kernel_driver (interface g)))" and "\<And>e. P (Cerr_guard e)"
  shows "emits_only P (usb_attach_interface_dtor h g)"
  unfolding usb_attach_interface_dtor_def
  by (intro emits_only_function_try_dtor assms)
     (simp add: emits_only_bind emits_only_libusb emits_only_check emits_only_return assms)

lemma emits_only_claim_ctor:
  assumes "P (Call (Claim_interface i))"
  shows "emits_only P (usb_claim_interface_ctor h i)"
  unfolding usb_claim_interface_ctor_def
  by (intro emits_only_bind emits_only_libusb emits_only_check emits_only_return assms)

lemma emits_only_claim_dtor:
  assumes "P (Call (Release_interface (claimed_interface g)))" and "\<And>e. P (Cerr_guard e)"
  shows "emits_only P (usb_claim_interface_dtor h g)"
  unfolding usb_claim_interface_dtor_def
  by (intro emits_only_function_try_dtor emits_only_bind emits_only_libusb emits_only_check
      emits_only_return assms)

lemma emits_only_usb_open:
  assumes "P (Call Libusb_init)"
  shows "emits_only P (usb_open h)"
  unfolding usb_open_def
  by (intro emits_only_bind emits_only_libusb emits_only_check emits_only_return assms)

lemma emits_only_init:
  assumes "list_all P (read_data_script cmd_devtype)" and "list_all P (send_cmd_script cmd_reset0)"
    and "\<And>bs. P (Write_past_end bs)"
  shows "emits_only P (init n h)"
proof -
  have cont: "\<exists>ev. snd ((if c then send_cmd h cmd_reset0
        else throw (Runtime_error Unknwon_device_type)) (if b then tr else tr @ [Write_past_end bs]))
          = tr @ ev \<and> list_all P ev" for c b bs tr
  proof -
    let ?k = "if c then send_cmd h cmd_reset0 else throw (Runtime_error Unknwon_device_type)"
    let ?tr = "if b then tr else tr @ [Write_past_end bs]"
    have "emits_only P ?k"
      by (simp add: emits_only_throw emits_only_scripted [OF scripted_send_cmd assms(2)])
    then obtain ev where "snd (?k ?tr) = ?tr @ ev" "list_all P ev"
      unfolding emits_only_def by blast
    then have "snd (?k ?tr) = tr @ (if b then ev else Write_past_end bs # ev)"
      "list_all P (if b then ev else Write_past_end bs # ev)"
      using assms(3) by simp_all
    then show ?thesis
      by blast
  qed
  have "emits_only P (\<lambda>tr.
       let (dinfo_bytes, past_end) = std_copy (take n raw) (uninitialised h sizeof_dev_info tr);
           dinfo = dev_info_of_bytes (big_endian h) dinfo_bytes;
           tr = (if past_end = [] then tr else tr @ [Write_past_end past_end])
       in (if dev_type dinfo = dev_type_temper1 then send_cmd h cmd_reset0
           else throw (Runtime_error Unknwon_device_type)) tr)" for raw
    unfolding emits_only_def Let_def split_def by (intro allI cont)
  then show ?thesis
    unfolding init_def
    by (intro emits_only_bind emits_only_scripted [OF scripted_read_data assms(1)])
qed

lemma emits_only_read_temperature:
  assumes "list_all P (read_data_script cmd_getdata_inner)" and "\<And>x. P (Cout x)"
  shows "emits_only P (read_temperature h)"
  unfolding read_temperature_def
  by (intro emits_only_bind emits_only_scripted [OF scripted_read_data assms(1)])
     (simp add: emits_only_def assms)

lemma emits_only_main_try: "emits_only outbound_ok (main_try nx n h)"
  unfolding main_try_def
  by (intro emits_only_scoped emits_only_bind emits_only_usb_open emits_only_usb_device_get
      emits_only_attach_ctor emits_only_attach_dtor emits_only_claim_ctor emits_only_claim_dtor
      emits_only_libusb emits_only_libusb_void emits_only_check emits_only_init
      emits_only_read_temperature outbound_ok_scripts outbound_ok_simps)

lemma outbound_ok_main: "list_all outbound_ok (snd (main nx n h))"
proof -
  from emits_only_main_try [of nx n h] obtain ev where
    "snd (main_try nx n h []) = ev" "list_all outbound_ok ev"
    unfolding emits_only_def by (metis append_Nil)
  then show ?thesis
    by (cases "main_try nx n h []")
      (auto simp: main_def split: sum.splits abrupt.splits)
qed

text \<open>
  C9. Every buffer handed to an outbound transfer, in any run of \<open>main\<close> on any host
  and in \<open>read_data\<close> and \<open>send_cmd\<close> for any opcode, has exactly 32 bytes and is zero
  beyond its significant prefix: eight bytes for the two framing messages, one for a
  command message, none for padding. The oldest variant's \<open>send_data\<close> hands over its
  eight values followed by 24 zero bytes.
\<close>

theorem outbound_messages_zero_padded:
  "list_all outbound_ok (snd (main nx ncopy h))
   \<and> list_all outbound_ok (emitted (read_data h op) tr)
   \<and> list_all outbound_ok (emitted (send_cmd h op) tr)
   \<and> (length msg = 8 \<longrightarrow>
        emitted (send_data h msg) tr = [Call (Control_out (map ucast msg @ replicate 24 0))]
        \<and> length (map ucast msg @ replicate 24 (0 :: u8)) = 32
        \<and> drop 8 (map ucast msg @ replicate 24 (0 :: u8)) = replicate 24 0)"
proof -
  have "list_all outbound_ok (emitted (read_data h op) tr)"
    by (rule emits_onlyD [OF emits_only_scripted [OF scripted_read_data outbound_ok_scripts(2)]])
  moreover have "list_all outbound_ok (emitted (send_cmd h op) tr)"
    by (rule emits_onlyD [OF emits_only_scripted [OF scripted_send_cmd outbound_ok_scripts(1)]])
  moreover have "length msg = 8 \<longrightarrow>
        emitted (send_data h msg) tr = [Call (Control_out (map ucast msg @ replicate 24 0))]"
    by (simp add: emitted_def send_data_eq usb_send_eq)
  ultimately show ?thesis
    using outbound_ok_main [of nx ncopy h] by simp
qed

theorem outbound_messages_zero_padded_witness:
  "length [0x54, 0, 0, 0, 0, 0, 0, 0 :: 32 word] = 8
   \<and> emitted (send_data plugged [0x54, 0, 0, 0, 0, 0, 0, 0]) [] = [Call (Control_out ([0x54, 0, 0, 0, 0, 0, 0, 0] @ replicate 24 0))]
   \<and> list_all outbound_ok (snd (main True 256 plugged))
   \<and> length (filter (\<lambda>e. case e of Call (Control_out m) \<Rightarrow> True | _ \<Rightarrow> False)
        (snd (main True 256 plugged))) = 29"
proof -
  have n: "length (filter (\<lambda>e. case e of Call (Control_out m) \<Rightarrow> True | _ \<Rightarrow> False)
        (snd (main True 256 plugged))) = 29"
    by code_simp
  have len: "length [0x54, 0, 0, 0, 0, 0, 0, 0 :: 32 word] = 8"
    by simp
  have m: "map ucast [0x54, 0, 0, 0, 0, 0, 0, 0 :: 32 word] @ replicate 24 (0 :: u8)
      = [0x54, 0, 0, 0, 0, 0, 0, 0] @ replicate 24 0"
    by simp
  note inst = outbound_messages_zero_padded [of True 256 plugged 0 "[]" "[0x54, 0, 0, 0, 0, 0, 0, 0]"]
  from inst have "list_all outbound_ok (snd (main True 256 plugged))"
    by (rule conjunct1)
  moreover from inst len
  have "emitted (send_data plugged [0x54, 0, 0, 0, 0, 0, 0, 0]) []
      = [Call (Control_out (map ucast [0x54, 0, 0, 0, 0, 0, 0, 0 :: 32 word] @ replicate 24 0))]"
    by blast
  ultimately show ?thesis
    using n len unfolding m by blast
qed

section \<open>Device locator: proofs\<close>

lemma opened_simps [simp]: "opened [] = []" "opened (tr @ tr') = opened tr @ opened tr'"
  "opened (Call (Libusb_open n) # tr) = n # opened tr"
  "opened (Call (Get_device_descriptor n) # tr) = opened tr"
  "opened (Call Get_device_list # tr) = opened tr"
  "opened (Call Free_device_list # tr) = opened tr"
  by (simp_all add: opened_def)

lemma scan_devices_Inr:
  assumes "scan_devices h v p dev ds tr = (Inr i, tr')"
  shows "i = dev + first_match v p ds \<and> first_match v p ds < length ds
         \<and> opened tr' = opened tr @ [i]"
  using assms
proof (induction ds arbitrary: dev tr)
  case Nil
  then show ?case by (simp add: throw_def)
next
  case (Cons d ds)
  let ?tr1 = "tr @ [Call (Get_device_descriptor dev)]"
  from Cons.prems have ok: "\<not> ret h tr (Get_device_descriptor dev) < 0"
    by (auto simp: bind_prog_def libusb_def check_def throw_def split: if_splits)
  show ?case
  proof (cases "matches v p d")
    case True
    with Cons.prems ok show ?thesis
      by (auto simp: bind_prog_def libusb_def check_def throw_def return_prog_def matches_def
          first_match_def split: if_splits)
  next
    case False
    with Cons.prems ok have "scan_devices h v p (Suc dev) ds ?tr1 = (Inr i, tr')"
      by (auto simp: bind_prog_def libusb_def check_def throw_def return_prog_def matches_def
          split: if_splits)
    from Cons.IH [OF this] False show ?thesis
      by (simp add: first_match_def)
  qed
qed

lemma scan_devices_not_found:
  assumes "scan_devices h v p dev ds tr = (Inl (Throw (Runtime_error Could_not_find_device)), tr')"
  shows "list_all (\<lambda>d. \<not> matches v p d) ds \<and> opened tr' = opened tr"
  using assms
proof (induction ds arbitrary: dev tr)
  case Nil
  then show ?case by (simp add: throw_def)
next
  case (Cons d ds)
  let ?tr1 = "tr @ [Call (Get_device_descriptor dev)]"
  from Cons.prems have ok: "\<not> ret h tr (Get_device_descriptor dev) < 0"
    by (auto simp: bind_prog_def libusb_def check_def throw_def split: if_splits)
  from Cons.prems ok have nm: "\<not> matches v p d"
    by (auto simp: bind_prog_def libusb_def check_def throw_def return_prog_def matches_def
        split: if_splits)
  with Cons.prems ok have "scan_devices h v p (Suc dev) ds ?tr1
       = (Inl (Throw (Runtime_error Could_not_find_device)), tr')"
    by (auto simp: bind_prog_def libusb_def check_def throw_def return_prog_def matches_def
        split: if_splits)
  from Cons.IH [OF this] nm show ?case
    by simp
qed

lemma scan_devices_ok:
  assumes "host_lists_devices h"
  shows "fst (scan_devices h v p dev ds tr) =
     (if list_all (\<lambda>d. \<not> matches v p d) ds then Inl (Throw (Runtime_error Could_not_find_device))
      else Inr (dev + first_match v p ds))"
proof (induction ds arbitrary: dev tr)
  case Nil
  show ?case by (simp add: throw_def)
next
  case (Cons d ds)
  from assms have ok: "\<not> ret h tr (Get_device_descriptor dev) < 0"
    "\<not> ret h (tr @ [Call (Get_device_descriptor dev)]) (Libusb_open dev) < 0"
    by (simp_all add: host_lists_devices_def not_less)
  show ?case
    using ok Cons [of "Suc dev" "tr @ [Call (Get_device_descriptor dev)]"]
    by (simp add: bind_prog_def libusb_def check_def throw_def return_prog_def matches_def
        first_match_def)
qed

lemma scan_devices_not_Terminate: "fst (scan_devices h v p dev ds tr) \<noteq> Inl Terminate"
  by (induction ds arbitrary: dev tr)
    (simp_all add: bind_prog_def libusb_def check_def throw_def return_prog_def)

lemma usb_device_get_scan:
  "usb_device_get h v p tr =
     (fst (scan_devices h v p 0 (devlist h) (tr @ [Call Get_device_list])),
      snd (scan_devices h v p 0 (devlist h) (tr @ [Call Get_device_list])) @ [Call Free_device_list])"
  using scan_devices_not_Terminate [of h v p 0 "devlist h" "tr @ [Call Get_device_list]"]
  by (cases "scan_devices h v p 0 (devlist h) (tr @ [Call Get_device_list])")
    (auto simp: usb_device_get_def scoped_def bind_prog_def usb_device_list_def destroy_def
      libusb_void_def split: sum.splits abrupt.splits)

lemma first_match_props:
  assumes "first_match v p ds < length ds"
  shows "matches v p (ds ! first_match v p ds)"
    and "j < first_match v p ds \<Longrightarrow> \<not> matches v p (ds ! j)"
proof -
  show "matches v p (ds ! first_match v p ds)"
    using assms nth_length_takeWhile [of "\<lambda>d. \<not> matches v p d" ds]
    by (simp add: first_match_def)
  show "j < first_match v p ds \<Longrightarrow> \<not> matches v p (ds ! j)"
    using nth_mem [of j "takeWhile (\<lambda>d. \<not> matches v p d) ds"] set_takeWhileD
    by (fastforce simp: first_match_def takeWhile_nth)
qed

lemma usb_device_get_emitted:
  "emitted (usb_device_get h v p) tr = drop (length tr) (snd (usb_device_get h v p tr))"
  "snd (usb_device_get h v p tr) = tr @ emitted (usb_device_get h v p) tr"
proof -
  have "emits_only (\<lambda>_. True) (usb_device_get h v p)"
    by (rule emits_only_usb_device_get) simp_all
  then show "snd (usb_device_get h v p tr) = tr @ emitted (usb_device_get h v p) tr"
    by (rule emits_onlyD)
qed (simp add: emitted_def)

lemma usb_device_get_Inr:
  assumes "fst (usb_device_get h v p tr) = Inr i"
  shows "i = first_match v p (devlist h)" "i < length (devlist h)"
    "opened (emitted (usb_device_get h v p) tr) = [i]"
proof -
  let ?tr1 = "tr @ [Call Get_device_list]"
  obtain tr' where scan: "scan_devices h v p 0 (devlist h) ?tr1 = (Inr i, tr')"
    using assms by (cases "scan_devices h v p 0 (devlist h) ?tr1") (simp add: usb_device_get_scan)
  from scan_devices_Inr [OF scan]
  have *: "i = first_match v p (devlist h)" "i < length (devlist h)" "opened tr' = opened tr @ [i]"
    by simp_all
  have "snd (usb_device_get h v p tr) = tr' @ [Call Free_device_list]"
    using scan by (simp add: usb_device_get_scan)
  then have "opened (tr @ emitted (usb_device_get h v p) tr) = opened tr @ [i]"
    using *(3) usb_device_get_emitted(2) [of h v p tr] by simp
  then show "opened (emitted (usb_device_get h v p) tr) = [i]"
    by simp
  show "i = first_match v p (devlist h)" "i < length (devlist h)"
    by (rule *)+
qed

lemma usb_device_get_not_found:
  assumes "fst (usb_device_get h v p tr) = Inl (Throw (Runtime_error Could_not_find_device))"
  shows "list_all (\<lambda>d. \<not> matches v p d) (devlist h)"
    "opened (emitted (usb_device_get h v p) tr) = []"
proof -
  let ?tr1 = "tr @ [Call Get_device_list]"
  obtain tr' where scan: "scan_devices h v p 0 (devlist h) ?tr1
      = (Inl (Throw (Runtime_error Could_not_find_device)), tr')"
    using assms by (cases "scan_devices h v p 0 (devlist h) ?tr1") (simp add: usb_device_get_scan)
  from scan_devices_not_found [OF scan]
  have *: "list_all (\<lambda>d. \<not> matches v p d) (devlist h)" "opened tr' = opened tr"
    by simp_all
  have "snd (usb_device_get h v p tr) = tr' @ [Call Free_device_list]"
    using scan by (simp add: usb_device_get_scan)
  then have "opened (tr @ emitted (usb_device_get h v p) tr) = opened tr"
    using *(2) usb_device_get_emitted(2) [of h v p tr] by simp
  then show "opened (emitted (usb_device_get h v p) tr) = []"
    by simp
  show "list_all (\<lambda>d. \<not> matches v p d) (devlist h)"
    by (rule *)
qed

lemma no_guard_without_device:
  assumes "isl (fst (usb_device_get h 0x1130 0x660c [Call Libusb_init]))"
  shows "list_all (\<lambda>e. \<not> guard_call e) (snd (main nx n h))"
proof -
  let ?P = "\<lambda>e. \<not> guard_call e"
  let ?loc = "usb_device_get h 0x1130 0x660c [Call Libusb_init]"
  have "emits_only ?P (usb_device_get h 0x1130 0x660c)"
    by (rule emits_only_usb_device_get) (simp_all add: guard_call_def)
  then obtain ev where ev: "snd ?loc = [Call Libusb_init] @ ev" "list_all ?P ev"
    unfolding emits_only_def by blast
  from assms obtain a where a: "fst ?loc = Inl a"
    by (cases "fst ?loc") simp_all
  have P: "?P (Call Libusb_init)" "?P (Call Libusb_exit)" "?P (Cerr_main e)" for e
    by (simp_all add: guard_call_def)
  have "snd (main_try nx n h []) = [Call Libusb_init]
      \<or> snd (main_try nx n h []) = snd ?loc
      \<or> snd (main_try nx n h []) = snd ?loc @ [Call Libusb_exit]"
    using a
    by (cases ?loc)
      (auto simp: main_try_def scoped_def bind_prog_def usb_open_def libusb_def check_def
        throw_def return_prog_def destroy_def libusb_void_def split: abrupt.splits)
  then have "list_all ?P (snd (main_try nx n h []))"
    using ev P by auto
  then show ?thesis
    using P(3) by (cases "main_try nx n h []") (auto simp: main_def split: sum.splits abrupt.splits)
qed

text \<open>
  C7. When \<open>usb_device_get\<close> returns a device, it is the first one in enumeration order
  whose descriptor has both IDs, and it is the only device opened. When it throws "could
  not find device", no descriptor of the snapshot matches and nothing was opened. On a
  host where reading descriptors and opening do not fail, these are the only two outcomes:
  the first match if there is one, "could not find device" otherwise. And when the locator
  fails in \<open>main\<close>, no guard is constructed: the trace has no call of a guard.
\<close>

theorem usb_device_get_first_match:
  "(fst (usb_device_get h vendor product tr) = Inr i \<longrightarrow>
      i < length (devlist h) \<and> matches vendor product (devlist h ! i)
      \<and> (\<forall>j. j < i \<longrightarrow> \<not> matches vendor product (devlist h ! j))
      \<and> opened (emitted (usb_device_get h vendor product) tr) = [i])
   \<and> (fst (usb_device_get h vendor product tr) = Inl (Throw (Runtime_error Could_not_find_device)) \<longrightarrow>
      list_all (\<lambda>d. \<not> matches vendor product d) (devlist h)
      \<and> opened (emitted (usb_device_get h vendor product) tr) = [])
   \<and> (host_lists_devices h \<longrightarrow>
      fst (usb_device_get h vendor product tr) =
        (if list_all (\<lambda>d. \<not> matches vendor product d) (devlist h)
         then Inl (Throw (Runtime_error Could_not_find_device))
         else Inr (first_match vendor product (devlist h))))
   \<and> (isl (fst (usb_device_get h 0x1130 0x660c [Call Libusb_init])) \<longrightarrow>
      list_all (\<lambda>e. \<not> guard_call e) (snd (main nx ncopy h)))"
proof (intro conjI impI allI)
  assume r: "fst (usb_device_get h vendor product tr) = Inr i"
  note * = usb_device_get_Inr [OF r]
  show "i < length (devlist h)"
    by (rule *)
  show "opened (emitted (usb_device_get h vendor product) tr) = [i]"
    by (rule *)
  show "matches vendor product (devlist h ! i)"
    using first_match_props(1) [of vendor product "devlist h"] *(1,2) by simp
  show "\<not> matches vendor product (devlist h ! j)" if "j < i" for j
    using first_match_props(2) [of vendor product "devlist h" j] *(1,2) that by simp
next
  assume r: "fst (usb_device_get h vendor product tr) = Inl (Throw (Runtime_error Could_not_find_device))"
  show "list_all (\<lambda>d. \<not> matches vendor product d) (devlist h)"
    "opened (emitted (usb_device_get h vendor product) tr) = []"
    by (rule usb_device_get_not_found [OF r])+
next
  assume "host_lists_devices h"
  then show "fst (usb_device_get h vendor product tr) =
        (if list_all (\<lambda>d. \<not> matches vendor product d) (devlist h)
         then Inl (Throw (Runtime_error Could_not_find_device))
         else Inr (first_match vendor product (devlist h)))"
    by (simp add: usb_device_get_scan scan_devices_ok)
next
  assume "isl (fst (usb_device_get h 0x1130 0x660c [Call Libusb_init]))"
  then show "list_all (\<lambda>e. \<not> guard_call e) (snd (main nx ncopy h))"
    by (rule no_guard_without_device)
qed

theorem usb_device_get_first_match_witness:
  "host_lists_devices two_thermometers
   \<and> fst (usb_device_get two_thermometers 0x1130 0x660c [Call Libusb_init]) = Inr 1
   \<and> matches 0x1130 0x660c (devlist two_thermometers ! 1)
   \<and> \<not> matches 0x1130 0x660c (devlist two_thermometers ! 0)
   \<and> opened (emitted (usb_device_get two_thermometers 0x1130 0x660c) [Call Libusb_init]) = [1]
   \<and> host_lists_devices unplugged
   \<and> fst (usb_device_get unplugged 0x1130 0x660c [Call Libusb_init])
        = Inl (Throw (Runtime_error Could_not_find_device))
   \<and> opened (emitted (usb_device_get unplugged 0x1130 0x660c) [Call Libusb_init]) = []
   \<and> list_all (\<lambda>e. \<not> guard_call e) (snd (main True 256 unplugged))"
proof -
  have h2: "host_lists_devices two_thermometers" and h0: "host_lists_devices unplugged"
    by (simp_all add: host_lists_devices_def two_thermometers_def unplugged_def plugged_def)
  note two = usb_device_get_first_match [of two_thermometers "0x1130" "0x660c" "[Call Libusb_init]" 1 True 256]
  note none = usb_device_get_first_match [of unplugged "0x1130" "0x660c" "[Call Libusb_init]" 0 True 256]
  have r2: "fst (usb_device_get two_thermometers 0x1130 0x660c [Call Libusb_init]) = Inr 1"
    using two h2 by (simp add: two_thermometers_def plugged_def matches_def first_match_def)
  have r0: "fst (usb_device_get unplugged 0x1130 0x660c [Call Libusb_init])
        = Inl (Throw (Runtime_error Could_not_find_device))"
    using none h0 by (simp add: unplugged_def plugged_def matches_def)
  from two r2 have "matches 0x1130 0x660c (devlist two_thermometers ! 1)"
    "\<not> matches 0x1130 0x660c (devlist two_thermometers ! 0)"
    "opened (emitted (usb_device_get two_thermometers 0x1130 0x660c) [Call Libusb_init]) = [1]"
    by simp_all
  moreover from none r0 have
    "opened (emitted (usb_device_get unplugged 0x1130 0x660c) [Call Libusb_init]) = []"
    "list_all (\<lambda>e. \<not> guard_call e) (snd (main True 256 unplugged))"
    by simp_all
  ultimately show ?thesis
    using h2 h0 r2 r0 by blast
qed

section \<open>Session: proofs\<close>

lemma usb_claim_interface_ctor_Inr:
  "usb_claim_interface_ctor h i tr = (Inr g, tr') \<Longrightarrow> g = \<lparr>claimed_interface = i\<rparr>"
  by (auto simp: usb_claim_interface_ctor_def bind_prog_def libusb_def check_def throw_def
      return_prog_def split: if_splits)

lemma usb_attach_interface_ctor_Inr:
  "usb_attach_interface_ctor h i tr = (Inr g, tr') \<Longrightarrow> interface g = i"
  by (auto simp: usb_attach_interface_ctor_def bind_prog_def libusb_def check_def throw_def
      return_prog_def Let_def split: if_splits)

lemma bind_prog_Inr:
  "bind_prog m f tr = (Inr y, tr') \<longleftrightarrow> (\<exists>x tr1. m tr = (Inr x, tr1) \<and> f x tr1 = (Inr y, tr'))"
  by (cases "m tr") (auto simp: bind_prog_def split: sum.splits)

lemma main_try_acquired:
  assumes "acquire h tr = (Inr (a1, a2), tr0)"
  shows "main_try nx ncopy h tr = teardown nx h a1 a2 (protocol ncopy h tr0)"
proof -
  from assms obtain t1 dh t2 t3 t4 r t5 t6 i1 t7 i2 where
    s: "usb_open h tr = (Inr (), t1)" "usb_device_get h 0x1130 0x660c t1 = (Inr dh, t2)"
       "usb_attach_interface_ctor h 0 t2 = (Inr a1, t3)"
       "usb_attach_interface_ctor h 1 t3 = (Inr a2, t4)"
       "libusb h (Set_configuration 1) t4 = (Inr r, t5)" "check r t5 = (Inr r, t6)"
       "usb_claim_interface_ctor h 0 t6 = (Inr i1, t7)"
       "usb_claim_interface_ctor h 1 t7 = (Inr i2, tr0)"
    unfolding acquire_def bind_prog_Inr
    by (auto simp: return_prog_def check_def throw_def split: if_splits)
  have i: "i1 = \<lparr>claimed_interface = 0\<rparr>" "i2 = \<lparr>claimed_interface = 1\<rparr>"
    using s(7,8) by (auto dest: usb_claim_interface_ctor_Inr)
  show ?thesis
    unfolding main_try_def scoped_def teardown_def protocol_def
    by (simp add: bind_prog_def s i)
qed

lemma usb_claim_interface_dtor_eq:
  "usb_claim_interface_dtor h g tr =
     (if ret h tr (Release_interface (claimed_interface g)) < 0
      then (Inl (Throw (Usb_error (ret h tr (Release_interface (claimed_interface g))))),
            tr @ [Call (Release_interface (claimed_interface g)),
                  Cerr_guard (Usb_error (ret h tr (Release_interface (claimed_interface g))))])
      else (Inr (), tr @ [Call (Release_interface (claimed_interface g))]))"
  by (simp add: usb_claim_interface_dtor_def function_try_dtor_def bind_prog_def libusb_def
      check_def throw_def return_prog_def)

lemma usb_attach_interface_dtor_eq:
  "usb_attach_interface_dtor h g tr =
     (if was_attached g then
        (if ret h tr (Attach_kernel_driver (interface g)) < 0
         then (Inl (Throw (Usb_error (ret h tr (Attach_kernel_driver (interface g))))),
               tr @ [Call (Attach_kernel_driver (interface g)),
                     Cerr_guard (Usb_error (ret h tr (Attach_kernel_driver (interface g))))])
         else (Inr (), tr @ [Call (Attach_kernel_driver (interface g))]))
      else (Inr (), tr))"
  by (simp add: usb_attach_interface_dtor_def function_try_dtor_def bind_prog_def libusb_def
      check_def throw_def return_prog_def)

lemma destroy_ok:
  assumes "dtor tr = (Inr (), tr')" and "res \<noteq> Inl Terminate"
  shows "destroy nx dtor (res, tr) = (res, tr')"
  using assms by (cases res) (auto simp: destroy_def split: abrupt.splits)

lemma teardown_ok:
  assumes "cleanup_succeeds h" and "res \<noteq> Inl Terminate"
  shows "teardown nx h a1 a2 (res, tr) =
     (res, tr @ [Call (Release_interface 1), Call (Release_interface 0)] @ reattach a2 @ reattach a1
             @ [Call Libusb_close, Call Libusb_exit])"
proof -
  from assms(1) have ok: "\<not> ret h t (Release_interface i) < 0"
    "\<not> ret h t (Attach_kernel_driver i) < 0" for t i
    by (simp_all add: cleanup_succeeds_def not_less)
  show ?thesis
    unfolding teardown_def
    by (simp add: destroy_ok [OF _ assms(2)] usb_claim_interface_dtor_eq
        usb_attach_interface_dtor_eq ok libusb_void_def reattach_def)
qed

lemma teardown_emits:
  "\<exists>ev. snd (teardown nx h a1 a2 (res, tr)) = tr @ ev \<and> list_all cleanup_event ev"
proof -
  let ?G = "\<lambda>out. \<exists>ev. snd out = tr @ ev \<and> list_all cleanup_event ev"
  have c: "cleanup_event (Call (Release_interface i))" "cleanup_event (Call (Attach_kernel_driver i))"
    "cleanup_event (Call Libusb_close)" "cleanup_event (Call Libusb_exit)"
    "cleanup_event (Cerr_guard e)" for i e
    by (simp_all add: cleanup_event_def)
  have step: "?G (destroy nx d out)" if "?G out" "emits_only cleanup_event d"
    for d and out :: "(abrupt + unit) \<times> event list"
    using that emits_only_destroy [of cleanup_event d out tr] by blast
  have "?G (res, tr)"
    by simp
  then show ?thesis
    unfolding teardown_def
    by (intro step emits_only_claim_dtor emits_only_attach_dtor emits_only_libusb_void c)
qed

lemma destroy_snd:
  assumes "res \<noteq> Inl Terminate"
  shows "snd (destroy nx d (res, tr)) = snd (d tr)"
  using assms
  by (cases res; cases "d tr") (auto simp: destroy_def split: abrupt.splits sum.splits)

lemma destroy_chain:
  assumes "emits_only cleanup_event d"
  shows "\<exists>ev. snd (destroy nx d out) = snd out @ ev \<and> list_all cleanup_event ev"
  using emits_only_destroy [OF assms, of out "snd out" "[]" nx] by simp

lemma cleanup_event_simps [simp]:
  "cleanup_event (Call (Release_interface i))" "cleanup_event (Call (Attach_kernel_driver i))"
  "cleanup_event (Call Libusb_close)" "cleanup_event (Call Libusb_exit)"
  "cleanup_event (Cerr_guard e)"
  by (simp_all add: cleanup_event_def)

lemma teardown_releases:
  assumes "res \<noteq> Inl Terminate"
  shows "\<exists>ev. snd (teardown nx h a1 a2 (res, tr)) = tr @ Call (Release_interface 1) # ev
           \<and> list_all cleanup_event ev
           \<and> (0 \<le> ret h tr (Release_interface 1) \<longrightarrow> take 1 ev = [Call (Release_interface 0)])"
proof -
  let ?i2 = "usb_claim_interface_dtor h \<lparr>claimed_interface = 1\<rparr>"
  let ?i1 = "usb_claim_interface_dtor h \<lparr>claimed_interface = 0\<rparr>"
  let ?rest = "\<lambda>out. destroy nx (libusb_void Libusb_exit) (destroy nx (libusb_void Libusb_close)
      (destroy nx (usb_attach_interface_dtor h a1) (destroy nx (usb_attach_interface_dtor h a2) out)))"
  have d: "emits_only cleanup_event (usb_attach_interface_dtor h a)"
    "emits_only cleanup_event (usb_claim_interface_dtor h g)"
    "emits_only cleanup_event (libusb_void c)" if "c = Libusb_close \<or> c = Libusb_exit" for a g c
    using that
    by (auto intro!: emits_only_attach_dtor emits_only_claim_dtor emits_only_libusb_void)
  have rest: "\<exists>ev. snd (?rest out) = snd out @ ev \<and> list_all cleanup_event ev"
    for out :: "(abrupt + unit) \<times> event list"
  proof -
    let ?o1 = "destroy nx (usb_attach_interface_dtor h a2) out"
    let ?o2 = "destroy nx (usb_attach_interface_dtor h a1) ?o1"
    let ?o3 = "destroy nx (libusb_void Libusb_close) ?o2"
    obtain e1 where e1: "snd ?o1 = snd out @ e1" "list_all cleanup_event e1"
      using destroy_chain [OF d(1)] by blast
    obtain e2 where e2: "snd ?o2 = snd ?o1 @ e2" "list_all cleanup_event e2"
      using destroy_chain [OF d(1)] by blast
    obtain e3 where e3: "snd ?o3 = snd ?o2 @ e3" "list_all cleanup_event e3"
      using destroy_chain [OF d(3)] by blast
    obtain e4 where e4: "snd (?rest out) = snd ?o3 @ e4" "list_all cleanup_event e4"
      using destroy_chain [OF d(3)] by blast
    have "snd (?rest out) = snd out @ (e1 @ e2 @ e3 @ e4)" "list_all cleanup_event (e1 @ e2 @ e3 @ e4)"
      using e1 e2 e3 e4 by simp_all
    then show ?thesis
      by blast
  qed
  have td: "teardown nx h a1 a2 (res, tr) = ?rest (destroy nx ?i1 (destroy nx ?i2 (res, tr)))"
    by (simp add: teardown_def)
  show ?thesis
  proof (cases "ret h tr (Release_interface 1) < 0")
    case True
    let ?o = "destroy nx ?i1 (destroy nx ?i2 (res, tr))"
    obtain e0 where e0: "snd (destroy nx ?i2 (res, tr)) = tr @ Call (Release_interface 1) # e0"
      "list_all cleanup_event e0"
      using True by (simp add: destroy_snd [OF assms] usb_claim_interface_dtor_eq)
    obtain e1 where e1: "snd ?o = snd (destroy nx ?i2 (res, tr)) @ e1" "list_all cleanup_event e1"
      using destroy_chain [OF d(2)] by blast
    obtain e2 where e2: "snd (?rest ?o) = snd ?o @ e2" "list_all cleanup_event e2"
      using rest [of ?o] by blast
    have "snd (teardown nx h a1 a2 (res, tr)) = tr @ Call (Release_interface 1) # (e0 @ e1 @ e2)"
      "list_all cleanup_event (e0 @ e1 @ e2)"
      using e0 e1 e2 td by simp_all
    with True show ?thesis
      by fastforce
  next
    case False
    then have o2: "destroy nx ?i2 (res, tr) = (res, tr @ [Call (Release_interface 1)])"
      using assms by (simp add: destroy_ok usb_claim_interface_dtor_eq)
    let ?t = "tr @ [Call (Release_interface 1)]"
    let ?o = "destroy nx ?i1 (res, ?t)"
    obtain e1 where e1: "snd ?o = ?t @ Call (Release_interface 0) # e1" "list_all cleanup_event e1"
      by (cases "ret h ?t (Release_interface 0) < 0")
        (simp_all add: destroy_snd [OF assms] usb_claim_interface_dtor_eq)
    obtain e2 where e2: "snd (?rest ?o) = snd ?o @ e2" "list_all cleanup_event e2"
      using rest [of ?o] by blast
    have "snd (teardown nx h a1 a2 (res, tr))
        = tr @ Call (Release_interface 1) # (Call (Release_interface 0) # e1 @ e2)"
      "list_all cleanup_event (Call (Release_interface 0) # e1 @ e2)"
      using e1 e2 td o2 by simp_all
    then show ?thesis
      by fastforce
  qed
qed

lemma length_uninitialised [simp]: "length (uninitialised h n tr) = n"
  by (simp add: uninitialised_def)

lemma length_overwrite [simp]: "length (overwrite buf bs) = length buf"
  by (simp add: overwrite_def)

lemma usb_recv_Inr:
  "usb_recv h tr = (Inr d, tr') \<Longrightarrow> length d = 256 \<and> tr' = tr @ [Call Control_in]"
  by (auto simp: usb_recv_eq split: if_splits)

lemma scripted_Inr:
  assumes "scripted p s" and "p tr = (Inr x, tr')"
  shows "tr' = tr @ s"
proof -
  from assms(1) have "snd (p tr) = tr @ emitted p tr \<and> (isl (fst (p tr)) \<or> emitted p tr = s)"
    by (simp add: scripted_def)
  with assms(2) show ?thesis
    by simp
qed

lemma read_data_Inr:
  assumes "read_data h op tr = (Inr d, tr')"
  shows "length d = 256" and "tr' = tr @ read_data_script op"
proof -
  from assms obtain t where "usb_recv h t = (Inr d, tr')"
    unfolding read_data_def bind_prog_Inr by blast
  then show "length d = 256"
    by (simp add: usb_recv_Inr)
  show "tr' = tr @ read_data_script op"
    by (rule scripted_Inr [OF scripted_read_data assms])
qed

lemma send_cmd_Inr:
  assumes "fst (send_cmd h op tr) = Inr u"
  shows "send_cmd h op tr = (Inr (), tr @ send_cmd_script op)"
proof -
  obtain tr' where r: "send_cmd h op tr = (Inr (), tr')"
    using assms by (cases "send_cmd h op tr") simp
  from scripted_Inr [OF scripted_send_cmd r] r show ?thesis
    by simp
qed

lemma dev_type_cong:
  assumes "bs ! 0 = raw ! 0" and "bs ! 1 = raw ! 1"
  shows "dev_type (dev_info_of_bytes be bs) = dev_type (dev_info_of_bytes be raw)"
  using assms by (simp add: dev_info_of_bytes_def)

lemma init_eq:
  assumes rd: "read_data h cmd_devtype tr0 = (Inr dinfo_raw, tr1)" and n: "2 \<le> ncopy"
  shows "init ncopy h tr0 =
     (if dev_type (dev_info_of_bytes (big_endian h) dinfo_raw) = dev_type_temper1
      then send_cmd h cmd_reset0 else throw (Runtime_error Unknwon_device_type))
       (tr1 @ past_end_event ncopy dinfo_raw)"
proof -
  define obj where "obj = uninitialised h sizeof_dev_info tr1"
  define bytes where "bytes = take (length obj) (take ncopy dinfo_raw) @ drop (length (take ncopy dinfo_raw)) obj"
  have len: "length dinfo_raw = 256"
    by (rule read_data_Inr [OF rd])
  have obj: "length obj = 8"
    by (simp add: obj_def sizeof_dev_info_def)
  have c: "std_copy (take ncopy dinfo_raw) (uninitialised h sizeof_dev_info tr1)
      = (bytes, drop sizeof_dev_info (take ncopy dinfo_raw))"
    by (simp add: std_copy_def bytes_def obj_def)
  have "bytes ! 0 = dinfo_raw ! 0" "bytes ! 1 = dinfo_raw ! 1"
    using n len obj by (simp_all add: bytes_def nth_append)
  then have ty: "dev_type (dev_info_of_bytes (big_endian h) bytes)
      = dev_type (dev_info_of_bytes (big_endian h) dinfo_raw)"
    by (rule dev_type_cong)
  show ?thesis
    unfolding init_def
    by (simp add: bind_prog_def rd c ty past_end_event_def)
qed

lemma emits_only_acquire: "emits_only (\<lambda>e. \<not> transfer e) (acquire h)"
  unfolding acquire_def
  by (intro emits_only_bind emits_only_usb_open emits_only_usb_device_get emits_only_attach_ctor
      emits_only_claim_ctor emits_only_libusb emits_only_check emits_only_return)
     (simp_all add: transfer_def)

lemma filter_transfer_cleanup: "list_all cleanup_event ev \<Longrightarrow> filter transfer ev = []"
  by (induction ev) (auto simp: cleanup_event_def transfer_def split: event.splits call.splits)

lemma filter_transfer_none: "list_all (\<lambda>e. \<not> transfer e) ev \<Longrightarrow> filter transfer ev = []"
  by (induction ev) auto

lemma filter_transfer_scripts [simp]:
  "filter transfer (read_data_script op) = read_data_script op"
  "filter transfer (send_cmd_script op) = send_cmd_script op"
  "filter transfer (past_end_event n d) = []"
  by (simp_all add: read_data_script_def send_cmd_script_def transfer_def past_end_event_def)

lemma destroy_isl: "isl (fst out) \<Longrightarrow> isl (fst (destroy nx d out))"
  by (cases out; cases "d (snd out)")
    (auto simp: destroy_def split: sum.splits abrupt.splits)

lemma teardown_isl: "isl (fst out) \<Longrightarrow> isl (fst (teardown nx h a1 a2 out))"
  unfolding teardown_def by (intro destroy_isl)

lemma main_eq:
  "snd (main nx n h) = snd (main_try nx n h []) @
      (case fst (main_try nx n h []) of Inl (Throw e) \<Rightarrow> [Cerr_main e] | _ \<Rightarrow> [])"
  "fst (main nx n h) =
      (case fst (main_try nx n h []) of Inl (Throw e) \<Rightarrow> EXIT_FAILURE | Inl Terminate \<Rightarrow> Aborted
       | Inr _ \<Rightarrow> EXIT_SUCCESS)"
  by (cases "main_try nx n h []"; auto simp: main_def split: sum.splits abrupt.splits)+

text \<open>
  The dispatch of the init block, where the copy stays within \<open>dinfo\<close> (the tr1 variant).
  Once the resources are acquired and the device-info report is read, the init block
  looks at the type word only. For \<open>dev_type_temper1\<close> it is \<open>send_cmd\<close> with
  \<open>cmd_reset0\<close>: select device, the command and seven padding messages, no read request
  and no inbound transfer; when these sends succeed the session goes on to the read
  phase. For every other type word it throws "unknwon device type": the session does not
  end with \<open>EXIT_SUCCESS\<close>, the transfers of the device-info read are the only transfers of
  the whole run, and the next thing that happens is the release of interface 1, followed
  by the release of interface 0 when the first release succeeds. On a host whose cleanup
  calls succeed the run ends with both releases, the reattachments, close, exit, the
  report of the error and \<open>EXIT_FAILURE\<close>.
\<close>

lemma init_dispatch:
  fixes h :: host and nx :: bool and ncopy :: nat
  assumes acq: "acquire h [] = (Inr (a1, a2), tr0)"
      and rd: "read_data h cmd_devtype tr0 = (Inr dinfo_raw, tr1)"
      and n: "2 \<le> ncopy" and fits: "ncopy \<le> sizeof_dev_info"
  defines "ty \<equiv> dev_type (dev_info_of_bytes (big_endian h) dinfo_raw)"
  shows "(ty = dev_type_temper1 \<longrightarrow>
            init ncopy h tr0 = send_cmd h cmd_reset0 tr1
          \<and> prefix (emitted (send_cmd h cmd_reset0) tr1) (send_cmd_script cmd_reset0)
          \<and> list_all (\<lambda>e. e \<noteq> Call Control_in) (send_cmd_script cmd_reset0)
          \<and> (\<not> isl (fst (send_cmd h cmd_reset0 tr1)) \<longrightarrow>
               main_try nx ncopy h [] =
                 teardown nx h a1 a2 (read_temperature h (tr1 @ send_cmd_script cmd_reset0))))
       \<and> (ty \<noteq> dev_type_temper1 \<longrightarrow>
            init ncopy h tr0 = (Inl (Throw (Runtime_error Unknwon_device_type)), tr1)
          \<and> main_try nx ncopy h [] =
              teardown nx h a1 a2 (Inl (Throw (Runtime_error Unknwon_device_type)), tr1)
          \<and> fst (main nx ncopy h) \<noteq> EXIT_SUCCESS
          \<and> filter transfer (snd (main nx ncopy h)) = read_data_script cmd_devtype
          \<and> take (length tr1 + 1) (snd (main nx ncopy h)) = tr1 @ [Call (Release_interface 1)]
          \<and> (0 \<le> ret h tr1 (Release_interface 1) \<longrightarrow>
               take (length tr1 + 2) (snd (main nx ncopy h))
                 = tr1 @ [Call (Release_interface 1), Call (Release_interface 0)])
          \<and> (cleanup_succeeds h \<longrightarrow>
               main nx ncopy h =
                 (EXIT_FAILURE,
                  tr1 @ [Call (Release_interface 1), Call (Release_interface 0)]
                    @ reattach a2 @ reattach a1
                    @ [Call Libusb_close, Call Libusb_exit,
                       Cerr_main (Runtime_error Unknwon_device_type)])))"
proof (intro conjI impI)
  have pe: "past_end_event ncopy dinfo_raw = []"
    using fits by (simp add: past_end_event_def)
  assume t1: "ty = dev_type_temper1"
  then show i: "init ncopy h tr0 = send_cmd h cmd_reset0 tr1"
    using init_eq [OF rd n] by (simp add: pe ty_def)
  show "prefix (emitted (send_cmd h cmd_reset0) tr1) (send_cmd_script cmd_reset0)"
    using scripted_send_cmd [of h cmd_reset0] by (simp add: scripted_def)
  show "list_all (\<lambda>e. e \<noteq> Call Control_in) (send_cmd_script cmd_reset0)"
    by (simp add: send_cmd_script_def list_all_iff)
  assume "\<not> isl (fst (send_cmd h cmd_reset0 tr1))"
  then obtain u where "fst (send_cmd h cmd_reset0 tr1) = Inr u"
    by (cases "fst (send_cmd h cmd_reset0 tr1)") simp_all
  then have "init ncopy h tr0 = (Inr (), tr1 @ send_cmd_script cmd_reset0)"
    using i by (simp add: send_cmd_Inr)
  then show "main_try nx ncopy h [] =
      teardown nx h a1 a2 (read_temperature h (tr1 @ send_cmd_script cmd_reset0))"
    by (simp add: main_try_acquired [OF acq] protocol_def bind_prog_def)
next
  have pe: "past_end_event ncopy dinfo_raw = []"
    using fits by (simp add: past_end_event_def)
  let ?e = "Runtime_error Unknwon_device_type"
  let ?td = "teardown nx h a1 a2 (Inl (Throw ?e), tr1)"
  assume "ty \<noteq> dev_type_temper1"
  then show i: "init ncopy h tr0 = (Inl (Throw ?e), tr1)"
    using init_eq [OF rd n] by (simp add: pe ty_def throw_def)
  then show m: "main_try nx ncopy h [] = ?td"
    by (simp add: main_try_acquired [OF acq] protocol_def bind_prog_def)
  have "isl (fst ?td)"
    by (rule teardown_isl) simp
  then show "fst (main nx ncopy h) \<noteq> EXIT_SUCCESS"
    by (cases "fst ?td") (auto simp: main_eq m split: abrupt.splits)
  obtain ev where ev: "snd ?td = tr1 @ Call (Release_interface 1) # ev" "list_all cleanup_event ev"
    "0 \<le> ret h tr1 (Release_interface 1) \<longrightarrow> take 1 ev = [Call (Release_interface 0)]"
    using teardown_releases [of "Inl (Throw ?e)" nx h a1 a2 tr1] by auto
  obtain tl where main: "snd (main nx ncopy h) = tr1 @ Call (Release_interface 1) # ev @ tl"
    "filter transfer tl = []"
    using ev(1) by (cases "fst ?td") (auto simp: main_eq m transfer_def split: abrupt.splits)
  have "filter transfer tr0 = []"
    using emits_onlyD [OF emits_only_acquire, of h "[]"] acq
    by (simp add: filter_transfer_none)
  moreover have "tr1 = tr0 @ read_data_script cmd_devtype"
    by (rule read_data_Inr [OF rd])
  ultimately show "filter transfer (snd (main nx ncopy h)) = read_data_script cmd_devtype"
    using main ev(2) by (simp add: filter_transfer_cleanup transfer_def)
  show "take (length tr1 + 1) (snd (main nx ncopy h)) = tr1 @ [Call (Release_interface 1)]"
    using main(1) by simp
  show "take (length tr1 + 2) (snd (main nx ncopy h))
      = tr1 @ [Call (Release_interface 1), Call (Release_interface 0)]"
    if "0 \<le> ret h tr1 (Release_interface 1)"
  proof -
    from that ev(3) obtain ev' where "ev = Call (Release_interface 0) # ev'"
      by (cases ev) auto
    with main(1) show ?thesis
      by simp
  qed
  show "main nx ncopy h =
      (EXIT_FAILURE,
       tr1 @ [Call (Release_interface 1), Call (Release_interface 0)] @ reattach a2 @ reattach a1
         @ [Call Libusb_close, Call Libusb_exit, Cerr_main ?e])"
    if "cleanup_succeeds h"
    using teardown_ok [OF that, of "Inl (Throw ?e)" nx a1 a2 tr1]
    by (simp add: main_def m)
qed

lemma init_dispatch_tr1:
  "acquire plugged [] = (Inr (attached 0, attached 1), plugged_acquired)
   \<and> read_data plugged cmd_devtype plugged_acquired
       = (Inr (0x57 # 0x58 # replicate 254 0), plugged_acquired @ read_data_script cmd_devtype)
   \<and> dev_type (dev_info_of_bytes (big_endian plugged) (0x57 # 0x58 # replicate 254 0)) = dev_type_temper1
   \<and> init sizeof_dev_info plugged plugged_acquired
       = (Inr (), plugged_acquired @ read_data_script cmd_devtype @ send_cmd_script cmd_reset0)
   \<and> main_try True sizeof_dev_info plugged []
       = teardown True plugged (attached 0) (attached 1)
           (read_temperature plugged
             (plugged_acquired @ read_data_script cmd_devtype @ send_cmd_script cmd_reset0))
   \<and> acquire unknown_type [] = (Inr (attached 0, attached 1), plugged_acquired)
   \<and> read_data unknown_type cmd_devtype plugged_acquired
       = (Inr (replicate 256 0), plugged_acquired @ read_data_script cmd_devtype)
   \<and> dev_type (dev_info_of_bytes (big_endian unknown_type) (replicate 256 0)) = 0x0000
   \<and> cleanup_succeeds unknown_type
   \<and> tr1_main True unknown_type
       = (EXIT_FAILURE,
          plugged_acquired @ read_data_script cmd_devtype
            @ [Call (Release_interface 1), Call (Release_interface 0),
               Call (Attach_kernel_driver 1), Call (Attach_kernel_driver 0),
               Call Libusb_close, Call Libusb_exit, Cerr_main (Runtime_error Unknwon_device_type)])
   \<and> filter transfer (snd (tr1_main True unknown_type)) = read_data_script cmd_devtype"
proof -
  let ?raw = "0x57 # 0x58 # replicate 254 (0 :: u8)"
  let ?tr1 = "plugged_acquired @ read_data_script cmd_devtype"
  have acq: "acquire plugged [] = (Inr (attached 0, attached 1), plugged_acquired)"
    by code_simp
  have rd: "read_data plugged cmd_devtype plugged_acquired = (Inr ?raw, ?tr1)"
    by code_simp
  have ty: "dev_type (dev_info_of_bytes (big_endian plugged) ?raw) = dev_type_temper1"
    by code_simp
  have ok: "\<not> isl (fst (send_cmd plugged cmd_reset0 ?tr1))"
    by code_simp
  have acq0: "acquire unknown_type [] = (Inr (attached 0, attached 1), plugged_acquired)"
    by code_simp
  have rd0: "read_data unknown_type cmd_devtype plugged_acquired = (Inr (replicate 256 0), ?tr1)"
    by code_simp
  have ty0: "dev_type (dev_info_of_bytes (big_endian unknown_type) (replicate 256 0)) = 0x0000"
    by code_simp
  have cl: "cleanup_succeeds unknown_type"
    by (simp add: cleanup_succeeds_def unknown_type_def plugged_def)
  have n: "2 \<le> sizeof_dev_info" "sizeof_dev_info \<le> sizeof_dev_info"
    by (simp_all add: sizeof_dev_info_def)
  note one = init_dispatch [OF acq rd n, of True]
  note zero = init_dispatch [OF acq0 rd0 n, of True]
  from one ty ok have
    "init sizeof_dev_info plugged plugged_acquired = send_cmd plugged cmd_reset0 ?tr1"
    "main_try True sizeof_dev_info plugged []
       = teardown True plugged (attached 0) (attached 1)
           (read_temperature plugged (?tr1 @ send_cmd_script cmd_reset0))"
    by simp_all
  moreover from ok have "send_cmd plugged cmd_reset0 ?tr1
       = (Inr (), ?tr1 @ send_cmd_script cmd_reset0)"
    by (cases "fst (send_cmd plugged cmd_reset0 ?tr1)") (simp_all add: send_cmd_Inr)
  moreover have z: "dev_type (dev_info_of_bytes (big_endian unknown_type) (replicate 256 0))
       \<noteq> dev_type_temper1"
    by (simp add: ty0 dev_type_temper1_def)
  from zero z cl have
    "main True sizeof_dev_info unknown_type
       = (EXIT_FAILURE,
          ?tr1 @ [Call (Release_interface 1), Call (Release_interface 0)]
            @ reattach (attached 1) @ reattach (attached 0)
            @ [Call Libusb_close, Call Libusb_exit, Cerr_main (Runtime_error Unknwon_device_type)])"
    by blast
  moreover from zero z have
    "filter transfer (snd (main True sizeof_dev_info unknown_type)) = read_data_script cmd_devtype"
    by blast
  ultimately show ?thesis
    using acq rd ty acq0 rd0 ty0 cl by (simp add: reattach_def attached_def tr1_main_def)
qed

section \<open>Teardown and the device-info copy: what the code does\<close>

text \<open>
  C2, at a failing input. The device is pulled out after the device-info report. The next
  send fails with \<open>usb_error\<close>, which unwinds \<open>main\<close>. The destructor of \<open>i2\<close> tries to
  release interface 1, that fails too, the handler writes its diagnostic and the exception
  leaves the destructor: \<open>std::terminate\<close>. Interface 0 is never released, no driver is
  reattached, the handle and the context stay open, and the handler of \<open>main\<close> never
  reports the send error. Before C++11 (tr1 variant) the outcome is the same here, since
  the stack is already unwinding; and on a host where only the release of interface 1
  fails, a run that had printed its reading ends with \<open>EXIT_FAILURE\<close>, the exception of
  the destructor having left it.
\<close>

theorem guard_release_failure_terminates:
  "fst (usb_claim_interface_dtor yanked \<lparr>claimed_interface = 1\<rparr>
         (plugged_acquired @ read_data_script cmd_devtype
            @ [Write_past_end (replicate 248 0), Call (Control_out select_device)]))
     = Inl (Throw (Usb_error (- 4)))
   \<and> temper_main yanked =
       (Aborted,
        plugged_acquired @ read_data_script cmd_devtype
          @ [Write_past_end (replicate 248 0), Call (Control_out select_device),
             Call (Release_interface 1), Cerr_guard (Usb_error (- 4))])
   \<and> tr1_main False yanked =
       (Aborted,
        plugged_acquired @ read_data_script cmd_devtype
          @ [Call (Control_out select_device),
             Call (Release_interface 1), Cerr_guard (Usb_error (- 4))])
   \<and> tr1_main False release_fails =
       (EXIT_FAILURE,
        plugged_acquired @ read_data_script cmd_devtype @ send_cmd_script cmd_reset0
          @ read_data_script cmd_getdata_inner
          @ [Cout (41 / 2), Call (Release_interface 1), Cerr_guard (Usb_error (- 4)),
             Call (Release_interface 0), Call (Attach_kernel_driver 1),
             Call (Attach_kernel_driver 0), Call Libusb_close, Call Libusb_exit,
             Cerr_main (Usb_error (- 4))])"
  by code_simp

text \<open>
  C6, at failing inputs. The two claim guards alone, in nested scopes as \<open>main\<close> declares
  them, on a host where the release of interface 1 fails: the destructor of the inner guard
  attempts the release, the handler writes its diagnostic, the exception leaves the
  \<open>noexcept\<close> destructor and \<open>std::terminate\<close> is called; the claim of interface 0 gets
  no release attempt. The tr1 variant built as C++11, on the normal return path with
  the reading already printed: both interfaces were claimed and the kernel driver was
  detached from both; after the failed release nothing else is attempted, no release of
  interface 0 and no reattachment. \<open>temper.cpp\<close>, with the device pulled out as soon as
  both interfaces are claimed: the first send fails before the device-info report is read
  or copied, and unwinding stops at the failed release of interface 1 in the same way.
\<close>

theorem release_failure_skips_cleanup:
  "scoped True (usb_claim_interface_ctor release_fails 0) (usb_claim_interface_dtor release_fails)
     (\<lambda>i1. scoped True (usb_claim_interface_ctor release_fails 1)
              (usb_claim_interface_dtor release_fails) (\<lambda>i2. return_prog ())) []
     = (Inl Terminate,
        [Call (Claim_interface 0), Call (Claim_interface 1), Call (Release_interface 1),
         Cerr_guard (Usb_error (- 4))])
   \<and> tr1_main True release_fails =
       (Aborted,
        plugged_acquired @ read_data_script cmd_devtype @ send_cmd_script cmd_reset0
          @ read_data_script cmd_getdata_inner
          @ [Cout (41 / 2), Call (Release_interface 1), Cerr_guard (Usb_error (- 4))])
   \<and> Call (Claim_interface 0) \<in> set (snd (tr1_main True release_fails))
   \<and> Call (Release_interface 0) \<notin> set (snd (tr1_main True release_fails))
   \<and> Call (Detach_kernel_driver 0) \<in> set (snd (tr1_main True release_fails))
   \<and> Call (Attach_kernel_driver 0) \<notin> set (snd (tr1_main True release_fails))
   \<and> Call (Detach_kernel_driver 1) \<in> set (snd (tr1_main True release_fails))
   \<and> Call (Attach_kernel_driver 1) \<notin> set (snd (tr1_main True release_fails))
   \<and> temper_main yanked_after_claim =
       (Aborted,
        plugged_acquired
          @ [Call (Control_out select_device), Call (Release_interface 1),
             Cerr_guard (Usb_error (- 4))])
   \<and> filter past_end (snd (temper_main yanked_after_claim)) = []"
  by code_simp

text \<open>
  C5, at a failing input. The tr1 variant, a device whose type word is \<open>0x0000\<close>, on a
  host where the release of interface 1 fails. The init block throws "unknwon device
  type" after the device-info read, \<open>main\<close> unwinds, the destructor of \<open>i2\<close> attempts the
  release of interface 1, its handler writes the diagnostic and the exception leaves the
  destructor: \<open>std::terminate\<close>, in either dialect. Interface 0, which was claimed, is
  never released, and the handler of \<open>main\<close> never reports the unknown device type.
\<close>

theorem unknown_type_release_failure_aborts:
  "dev_type (dev_info_of_bytes (big_endian unknown_type_release_fails) (replicate 256 0)) = 0x0000
   \<and> init sizeof_dev_info unknown_type_release_fails plugged_acquired
     = (Inl (Throw (Runtime_error Unknwon_device_type)),
        plugged_acquired @ read_data_script cmd_devtype)
   \<and> tr1_main True unknown_type_release_fails =
       (Aborted,
        plugged_acquired @ read_data_script cmd_devtype
          @ [Call (Release_interface 1), Cerr_guard (Usb_error (- 4))])
   \<and> tr1_main False unknown_type_release_fails =
       (Aborted,
        plugged_acquired @ read_data_script cmd_devtype
          @ [Call (Release_interface 1), Cerr_guard (Usb_error (- 4))])
   \<and> Call (Claim_interface 0) \<in> set (snd (tr1_main True unknown_type_release_fails))
   \<and> Call (Release_interface 0) \<notin> set (snd (tr1_main True unknown_type_release_fails))
   \<and> Cerr_main (Runtime_error Unknwon_device_type)
        \<notin> set (snd (tr1_main True unknown_type_release_fails))"
  by code_simp

lemma emits_only_init_in_bounds:
  assumes "list_all P (read_data_script cmd_devtype)" and "list_all P (send_cmd_script cmd_reset0)"
    and "n \<le> sizeof_dev_info"
  shows "emits_only P (init n h)"
proof -
  have cont: "\<exists>ev. snd ((if c then send_cmd h cmd_reset0
        else throw (Runtime_error Unknwon_device_type)) tr) = tr @ ev \<and> list_all P ev" for c tr
  proof -
    have "emits_only P (if c then send_cmd h cmd_reset0 else throw (Runtime_error Unknwon_device_type))"
      by (simp add: emits_only_throw emits_only_scripted [OF scripted_send_cmd assms(2)])
    then show ?thesis
      unfolding emits_only_def by blast
  qed
  have fits: "snd (std_copy (take n raw) (uninitialised h sizeof_dev_info tr)) = []" for raw tr
    using assms(3) by (simp add: std_copy_def)
  have "emits_only P (\<lambda>tr.
       let (dinfo_bytes, past_end) = std_copy (take n raw) (uninitialised h sizeof_dev_info tr);
           dinfo = dev_info_of_bytes (big_endian h) dinfo_bytes;
           tr = (if past_end = [] then tr else tr @ [Write_past_end past_end])
       in (if dev_type dinfo = dev_type_temper1 then send_cmd h cmd_reset0
           else throw (Runtime_error Unknwon_device_type)) tr)" for raw
    unfolding emits_only_def Let_def split_def fits by (simp add: cont)
  then show ?thesis
    unfolding init_def
    by (intro emits_only_bind emits_only_scripted [OF scripted_read_data assms(1)])
qed

text \<open>The tr1 variant never writes past the end of \<open>dinfo\<close>, on any host.\<close>

lemma tr1_copy_in_bounds: "filter past_end (snd (tr1_main nx h)) = []"
proof -
  let ?P = "\<lambda>e. \<not> past_end e"
  have scripts: "list_all ?P (read_data_script op)" "list_all ?P (send_cmd_script op)" for op
    by (simp_all add: read_data_script_def send_cmd_script_def past_end_def list_all_iff)
  have "emits_only ?P (main_try nx sizeof_dev_info h)"
    unfolding main_try_def
    by (intro emits_only_scoped emits_only_bind emits_only_usb_open emits_only_usb_device_get
        emits_only_attach_ctor emits_only_attach_dtor emits_only_claim_ctor emits_only_claim_dtor
        emits_only_libusb emits_only_libusb_void emits_only_check emits_only_init_in_bounds
        emits_only_read_temperature scripts order_refl)
      (simp_all add: past_end_def)
  then obtain ev where "snd (main_try nx sizeof_dev_info h []) = ev" "list_all ?P ev"
    unfolding emits_only_def by (metis append_Nil)
  then have "list_all ?P (snd (tr1_main nx h))"
    by (cases "fst (main_try nx sizeof_dev_info h [])")
      (auto simp: tr1_main_def main_eq past_end_def split: abrupt.splits)
  then show ?thesis
    by (simp add: list_all_iff filter_empty_conv)
qed

text \<open>
  \<open>temper.cpp\<close> writes bytes 8 to 255 of every device-info report it reads past the end
  of \<open>dinfo\<close>, on any host.
\<close>

lemma temper_cpp_copy_overruns:
  assumes "read_data h cmd_devtype tr0 = (Inr dinfo_raw, tr1)"
  shows "past_end_event 256 dinfo_raw = [Write_past_end (drop 8 dinfo_raw)]"
    and "length (drop 8 dinfo_raw) = 248"
    and "take (length tr1 + 1) (snd (init 256 h tr0)) = tr1 @ [Write_past_end (drop 8 dinfo_raw)]"
proof -
  have len: "length dinfo_raw = 256"
    by (rule read_data_Inr [OF assms])
  then show pe: "past_end_event 256 dinfo_raw = [Write_past_end (drop 8 dinfo_raw)]"
    by (auto simp: past_end_event_def sizeof_dev_info_def)
  show "length (drop 8 dinfo_raw) = 248"
    using len by simp
  let ?tr2 = "tr1 @ [Write_past_end (drop 8 dinfo_raw)]"
  have "\<exists>ev. snd (init 256 h tr0) = ?tr2 @ ev"
  proof (cases "dev_type (dev_info_of_bytes (big_endian h) dinfo_raw) = dev_type_temper1")
    case True
    then have "init 256 h tr0 = send_cmd h cmd_reset0 ?tr2"
      using init_eq [OF assms, of 256] pe by simp
    moreover have "snd (send_cmd h cmd_reset0 ?tr2) = ?tr2 @ emitted (send_cmd h cmd_reset0) ?tr2"
      using scripted_send_cmd [of h cmd_reset0] by (simp add: scripted_def)
    ultimately show ?thesis
      by (metis)
  next
    case False
    then have "init 256 h tr0 = (Inl (Throw (Runtime_error Unknwon_device_type)), ?tr2)"
      using init_eq [OF assms, of 256] pe by (simp add: throw_def)
    then show ?thesis
      by simp
  qed
  then show "take (length tr1 + 1) (snd (init 256 h tr0)) = ?tr2"
    by auto
qed

text \<open>
  C10, at a failing input. \<open>temper.cpp\<close> copies the whole report over \<open>dinfo\<close>: bytes 8
  to 255 of the device-info report, 248 bytes the device chooses, are written behind the
  eight bytes of \<open>dinfo\<close> on the stack of \<open>main\<close>. The tr1 variant copies
  \<open>sizeof (dev_info)\<close> bytes and writes nothing behind it.
\<close>

theorem device_info_copy_overruns:
  "filter past_end (snd (temper_main noisy)) = [Write_past_end (replicate 248 0xAA)]
   \<and> sizeof_dev_info = 8
   \<and> filter past_end (snd (tr1_main True noisy)) = []
   \<and> filter past_end (snd (tr1_main False noisy)) = []"
  by code_simp

section \<open>Short reads and the session\<close>









lemma aborts_quiet: "quiet k h p \<Longrightarrow> aborts_on_short_read k h p"
  unfolding quiet_def aborts_on_short_read_def by blast





















text \<open>
  In the oldest variant a read of two bytes does not end the session: the two bytes are
  decoded and printed, and \<open>main\<close> returns \<open>EXIT_SUCCESS\<close>.
\<close>

lemma oldest_main_two_bytes:
  "fst (oldest_main True two_bytes) = EXIT_SUCCESS"
  "fst (oldest_main False two_bytes) = EXIT_SUCCESS"
  "filter cout (snd (oldest_main True two_bytes)) = [Cout (87 + 88 / 256)]"
  "short_read_in 256 two_bytes [] (snd (oldest_main True two_bytes))"
  "\<not> short_read_in 2 two_bytes [] (snd (oldest_main True two_bytes))"
  by code_simp+



section \<open>Decoder: proofs\<close>

lemma nearest_even_of_nat: "nearest_even (real j) = int j"
  by (simp add: nearest_even_def)

lemma rounds_exactly_round_nearest:
  assumes p: "24 \<le> p" and emin: "emin \<le> - 126"
  shows "rounds_exactly (round_nearest p emin)"
  unfolding rounds_exactly_def
proof (intro allI impI)
  fix m k :: nat
  assume b: "m < 2 ^ 24 \<and> k \<le> 126"
  let ?x = "real m / 2 ^ k"
  show "round_nearest p emin ?x = ?x"
  proof (cases "m = 0")
    case True
    then show ?thesis by (simp add: round_nearest_def)
  next
    case False
    then have pos: "0 < ?x"
      by simp
    define L where "L = \<lfloor>log 2 ?x\<rfloor>"
    define e where "e = max L emin - (int p - 1)"
    have "log 2 ?x = log 2 (real m) - real k"
      using False by (simp add: log_divide log_nat_power)
    moreover have "log 2 (real m) < 24"
      using b False log2_of_power_less [of m 24] by simp
    ultimately have "log 2 ?x < real_of_int (24 - int k)"
      by simp
    then have "L < 24 - int k"
      unfolding L_def by (simp add: floor_less_iff)
    then have e: "e \<le> - int k"
      using b p emin unfolding e_def by linarith
    define d where "d = nat (- int k - e)"
    have d: "int d = - int k - e"
      using e by (simp add: d_def)
    have x: "?x = real m * 2 powr (- real k)"
      by (simp add: powr_minus powr_realpow divide_inverse)
    have "2 powr (- real k) / 2 powr real_of_int e = 2 powr (real_of_int (- int k - e))"
      by (simp add: powr_diff [symmetric])
    also have "\<dots> = 2 powr real d"
      using d by (metis of_int_of_nat_eq)
    also have "\<dots> = 2 ^ d"
      by (simp add: powr_realpow)
    finally have pw: "2 powr (- real k) / 2 powr real_of_int e = 2 ^ d" .
    have "?x / 2 powr real_of_int e = real m * (2 powr (- real k) / 2 powr real_of_int e)"
      unfolding x by simp
    also have "\<dots> = real m * 2 ^ d"
      unfolding pw ..
    finally have q: "?x / 2 powr real_of_int e = real (m * 2 ^ d)"
      by simp
    have "round_nearest p emin ?x
        = real_of_int (nearest_even (?x / 2 powr real_of_int e)) * 2 powr real_of_int e"
      using pos False by (simp add: round_nearest_def e_def L_def)
    also have "\<dots> = real_of_int (int (m * 2 ^ d)) * 2 powr real_of_int e"
      unfolding q nearest_even_of_nat ..
    also have "\<dots> = (?x / 2 powr real_of_int e) * 2 powr real_of_int e"
      unfolding q by simp
    also have "\<dots> = ?x"
      by simp
    finally show ?thesis .
  qed
qed

lemma rounds_exactly_binary: "rounds_exactly binary32" "rounds_exactly binary64"
  unfolding binary32_def binary64_def by (rule rounds_exactly_round_nearest; simp)+

lemma rounds_exactlyD:
  assumes "rounds_exactly rnd" and "m < 2 ^ 24" and "k \<le> 126"
  shows "rnd (real m / 2 ^ k) = real m / 2 ^ k"
  using assms by (simp add: rounds_exactly_def)

text \<open>
  C3. In any format that does not round 24-bit significands (\<open>float\<close> as in \<open>temper.cpp\<close>,
  \<open>double\<close> as in the oldest variant), the value computed from a 256-byte report is
  exactly \<open>r[0] + r[1] / 256\<close>: no operation rounds. It lies in \<open>[0, 256)\<close>, and a report
  starting \<open>14 80\<close> gives \<open>20.5\<close>.
\<close>

theorem decode_exact:
  assumes "length r = 256" and "rounds_exactly rnd"
  shows "decode rnd r = real (unat (r ! 0)) + real (unat (r ! 1)) / 256
       \<and> 0 \<le> decode rnd r \<and> decode rnd r < 256
       \<and> (r ! 0 = 0x14 \<and> r ! 1 = 0x80 \<longrightarrow> decode rnd r = 20.5)"
proof -
  define a where "a = unat (r ! 0)"
  define b where "b = unat (r ! 1)"
  have a: "a < 256" and b: "b < 256"
    using unsigned_less [of "r ! 0", where ?'a = nat] unsigned_less [of "r ! 1", where ?'a = nat]
    by (simp_all add: a_def b_def)
  have ra: "rnd (real a) = real a"
    using rounds_exactlyD [OF assms(2), of a 0] a by simp
  have rb: "rnd (real b) = real b"
    using rounds_exactlyD [OF assms(2), of b 0] b by simp
  have r256: "rnd 256 = 256"
    using rounds_exactlyD [OF assms(2), of 256 0] by simp
  have rq: "rnd (real b / 256) = real b / 256"
    using rounds_exactlyD [OF assms(2), of b 8] b by simp
  have e: "real (256 * a + b) / 2 ^ 8 = real a + real b / 256"
    by simp
  have "rnd (real (256 * a + b) / 2 ^ 8) = real (256 * a + b) / 2 ^ 8"
    using a b by (intro rounds_exactlyD [OF assms(2)]) simp_all
  then have rs: "rnd (real a + real b / 256) = real a + real b / 256"
    unfolding e .
  have d: "decode rnd r = real a + real b / 256"
    unfolding decode_def a_def [symmetric] b_def [symmetric] ra rb r256 rq rs ..
  have "0 \<le> real a + real b / 256"
    by simp
  moreover have "real a + real b / 256 < 256"
  proof -
    have "real a \<le> 255" "real b < 256"
      using a b by simp_all
    then show ?thesis
      by simp
  qed
  moreover have "decode rnd r = 20.5" if "r ! 0 = 0x14 \<and> r ! 1 = 0x80"
    using that d by (simp add: a_def b_def)
  ultimately show ?thesis
    using d by (simp add: a_def b_def)
qed

theorem decode_exact_witness:
  "length (0x14 # 0x80 # replicate 254 (0 :: u8)) = 256
   \<and> rounds_exactly binary32
   \<and> rounds_exactly binary64
   \<and> decode binary32 (0x14 # 0x80 # replicate 254 0) = 20.5
   \<and> decode binary64 (0x14 # 0x80 # replicate 254 0) = 20.5
   \<and> decode binary32 (0x14 # 0x80 # replicate 254 0) < 256"
proof -
  have len: "length (0x14 # 0x80 # replicate 254 (0 :: u8)) = 256"
    by simp
  from decode_exact [OF len rounds_exactly_binary(1)] decode_exact [OF len rounds_exactly_binary(2)]
  show ?thesis
    using len rounds_exactly_binary by simp
qed

end
